theory Spec2Isabelle
  imports Main
begin

section \<open>Python strings\<close>

text \<open>
  A Python \<^verbatim>\<open>str\<close> is a sequence of Unicode code points; a code point is a natural
  number. (An Isabelle \<^typ>\<open>char\<close> is a byte and cannot hold the Yi syllables the
  program tests for.) String literals of the source are written \<open>lit ''...''\<close>.
\<close>

type_synonym ustr = "nat list"

definition lit :: "string \<Rightarrow> ustr" where
  "lit s = map of_char s"

text \<open>\<^verbatim>\<open>str.isspace\<close> of one character (Unicode 14, as CPython 3.11 ships it).\<close>

definition isspace :: "nat \<Rightarrow> bool" where
  "isspace c \<longleftrightarrow>
     (9 \<le> c \<and> c \<le> 13) \<or> (28 \<le> c \<and> c \<le> 32) \<or> c = 133 \<or> c = 160 \<or> c = 5760 \<or>
     (8192 \<le> c \<and> c \<le> 8202) \<or> c = 8232 \<or> c = 8233 \<or> c = 8239 \<or> c = 8287 \<or> c = 12288"

text \<open>\<^verbatim>\<open>s.strip()\<close>: whitespace removed at both ends.\<close>

definition strip :: "ustr \<Rightarrow> ustr" where
  "strip s = rev (dropWhile isspace (rev (dropWhile isspace s)))"

text \<open>
  \<^verbatim>\<open>s.lower()\<close>. The letters A to Z go to a to z. Two other code points have a
  lower-case form that contains an ASCII letter: U+212A (Kelvin sign) goes to k and
  U+0130 goes to i followed by U+0307. Every other cased letter goes to a letter outside
  ASCII; the program only compares lowered strings with ASCII literals and never copies
  a lowered string to its output unless it equals such a literal, so those code points
  are left as they are.
\<close>

definition lower_char :: "nat \<Rightarrow> ustr" where
  "lower_char c =
     (if 65 \<le> c \<and> c \<le> 90 then [c + 32]
      else if c = 8490 then [107]
      else if c = 304 then [105, 775]
      else [c])"

definition lower :: "ustr \<Rightarrow> ustr" where
  "lower s = concat (map lower_char s)"

text \<open>\<^verbatim>\<open>s.startswith(p)\<close> and \<^verbatim>\<open>sub in s\<close>.\<close>

definition startswith :: "ustr \<Rightarrow> ustr \<Rightarrow> bool" where
  "startswith s p \<longleftrightarrow> take (length p) s = p"

fun substr_in :: "ustr \<Rightarrow> ustr \<Rightarrow> bool" where
  "substr_in sub [] = (sub = [])"
| "substr_in sub (c # cs) = (startswith (c # cs) sub \<or> substr_in sub cs)"

text \<open>\<^verbatim>\<open>s.split(sep)\<close> for a separator of one character.\<close>

fun split_on :: "nat \<Rightarrow> ustr \<Rightarrow> ustr list" where
  "split_on sep [] = [[]]"
| "split_on sep (c # cs) =
     (if c = sep then [] # split_on sep cs
      else (case split_on sep cs of
              [] \<Rightarrow> [[c]]
            | w # ws \<Rightarrow> (c # w) # ws))"

text \<open>The third component of \<^verbatim>\<open>s.partition(sep)\<close>: what follows the first separator.\<close>

definition partition_after :: "nat \<Rightarrow> ustr \<Rightarrow> ustr" where
  "partition_after sep s = (case dropWhile (\<lambda>c. c \<noteq> sep) s of [] \<Rightarrow> [] | _ # rest \<Rightarrow> rest)"

text \<open>\<^verbatim>\<open>s.replace(old, new)\<close> for \<^verbatim>\<open>old\<close> of one character.\<close>

definition replace_char :: "nat \<Rightarrow> ustr \<Rightarrow> ustr \<Rightarrow> ustr" where
  "replace_char old new s = concat (map (\<lambda>c. if c = old then new else [c]) s)"

text \<open>
  \<^verbatim>\<open>html.escape(s, quote)\<close> of the standard library: the ampersand is replaced
  first, then the angle brackets, then (only with \<^verbatim>\<open>quote\<close>) both quote characters.
\<close>

definition html_escape :: "ustr \<Rightarrow> bool \<Rightarrow> ustr" where
  "html_escape s quote =
     (let s = replace_char 38 (lit ''&amp;'') s;
          s = replace_char 60 (lit ''&lt;'') s;
          s = replace_char 62 (lit ''&gt;'') s
      in if quote
         then replace_char 39 (lit ''&#x27;'') (replace_char 34 (lit ''&quot;'') s)
         else s)"

text \<open>The truth value of an optional string: \<^verbatim>\<open>None\<close> and \<^verbatim>\<open>""\<close> are false.\<close>

fun truthy :: "ustr option \<Rightarrow> bool" where
  "truthy None = False"
| "truthy (Some s) = (s \<noteq> [])"

text \<open>\<^verbatim>\<open>x or ""\<close>.\<close>

fun or_empty :: "ustr option \<Rightarrow> ustr" where
  "or_empty None = []"
| "or_empty (Some s) = s"

text \<open>\<^verbatim>\<open>x or y\<close> on optional strings.\<close>

definition py_or :: "ustr option \<Rightarrow> ustr option \<Rightarrow> ustr option" where
  "py_or x y = (if truthy x then x else y)"

section \<open>The parsed tree\<close>

text \<open>
  The attributes the program reads from a tag. The parser gives \<^verbatim>\<open>class\<close> as a list
  of tokens and every other attribute as one string; a missing attribute is \<open>None\<close>.
\<close>

record attrs =
  attr_style :: "ustr option"
  attr_align :: "ustr option"
  attr_class :: "ustr list option"
  attr_href :: "ustr option"
  attr_face :: "ustr option"
  attr_data_font :: "ustr option"
  attr_color :: "ustr option"

text \<open>
  A node is a \<^verbatim>\<open>NavigableString\<close>, a \<^verbatim>\<open>Tag\<close> with its name, attributes and
  children, or any other object (neither of the two classes).
\<close>

datatype node =
    NavigableString ustr
  | Tag ustr attrs "node list"
  | Other

section \<open>Constants of the module\<close>

definition ALIGN_VALUE_MAP :: "ustr \<rightharpoonup> ustr" where
  "ALIGN_VALUE_MAP = map_of
     [(lit ''left'', lit ''L''), (lit ''center'', lit ''C''),
      (lit ''right'', lit ''R''), (lit ''justify'', lit ''J'')]"

definition ALIGN_WORD_MAP :: "ustr \<rightharpoonup> ustr" where
  "ALIGN_WORD_MAP = map_of
     [(lit ''L'', lit ''left''), (lit ''C'', lit ''center''),
      (lit ''R'', lit ''right''), (lit ''J'', lit ''justify'')]"

text \<open>The character class of \<^verbatim>\<open>YI_RANGE_PATTERN\<close>: U+A000 to U+A48F.\<close>

definition is_yi :: "nat \<Rightarrow> bool" where
  "is_yi c \<longleftrightarrow> 40960 \<le> c \<and> c \<le> 42127"

section \<open>The inline renderer\<close>

text \<open>
  \<^verbatim>\<open>_wrap_yi_sequences\<close>: \<^verbatim>\<open>YI_RANGE_PATTERN.sub(repl, text)\<close> scans from the left;
  at a Yi character the greedy \<^verbatim>\<open>+\<close> takes the longest run, which \<^verbatim>\<open>repl\<close> encloses
  in the font tag; any other character is copied.
\<close>

definition yi_open :: ustr where
  "yi_open = lit ''<font face=\"NotoSansYi\">''"

definition yi_close :: ustr where
  "yi_close = lit ''</font>''"

function wrap_yi_sequences :: "ustr \<Rightarrow> ustr" where
  "wrap_yi_sequences [] = []"
| "wrap_yi_sequences (c # cs) =
     (if is_yi c
      then yi_open @ (c # takeWhile is_yi cs) @ yi_close @ wrap_yi_sequences (dropWhile is_yi cs)
      else c # wrap_yi_sequences cs)"
  by pat_completeness auto
termination
  by (relation "measure length") (auto simp: length_dropWhile_le less_Suc_eq_le)

text \<open>The inner function \<^verbatim>\<open>apply_wrapper\<close> of \<^verbatim>\<open>_render_node\<close>.\<close>

definition apply_wrapper :: "ustr \<Rightarrow> ustr \<Rightarrow> ustr" where
  "apply_wrapper content tag_name =
     lit ''<'' @ tag_name @ lit ''>'' @ content @ lit ''</'' @ tag_name @ lit ''>''"

text \<open>
  A statement \<^verbatim>\<open>if cond: inner = apply_wrapper(inner, tag_name)\<close>.
\<close>

definition wrap_if :: "bool \<Rightarrow> ustr \<Rightarrow> ustr \<Rightarrow> ustr" where
  "wrap_if cond tag_name inner = (if cond then apply_wrapper inner tag_name else inner)"

text \<open>
  Lines 189 to 235 of \<^verbatim>\<open>_render_node\<close> put wrappers around the rendered children
  \<open>inner\<close> of a tag named \<open>name\<close> (already lowered), one conditional statement after
  the other, each around the result of the one before. The statements are grouped as in
  the source: by tag name (lines 195 to 202), by inline style (204 to 209), by class (211
  to 216), the link (218 to 220), the font face (222 to 229) and the font colour (231 to
  233).
\<close>

definition name_wrappers :: "ustr \<Rightarrow> ustr \<Rightarrow> ustr" where
  "name_wrappers name inner =
     (let inner = wrap_if (name \<in> {lit ''b'', lit ''strong''}) (lit ''b'') inner;
          inner = wrap_if (name \<in> {lit ''i'', lit ''em''}) (lit ''i'') inner;
          inner = wrap_if (name = lit ''u'') (lit ''u'') inner
      in wrap_if (name \<in> {lit ''sup'', lit ''sub''}) name inner)"

definition style_wrappers :: "ustr \<Rightarrow> ustr \<Rightarrow> ustr" where
  "style_wrappers style_attr inner =
     (let inner = wrap_if (substr_in (lit ''font-weight'') style_attr
                           \<and> substr_in (lit ''bold'') style_attr) (lit ''b'') inner;
          inner = wrap_if (substr_in (lit ''font-style'') style_attr
                           \<and> substr_in (lit ''italic'') style_attr) (lit ''i'') inner
      in wrap_if (substr_in (lit ''text-decoration'') style_attr
                  \<and> substr_in (lit ''underline'') style_attr) (lit ''u'') inner)"

definition class_wrappers :: "ustr list \<Rightarrow> ustr \<Rightarrow> ustr" where
  "class_wrappers classes inner =
     (let inner = wrap_if (list_ex (substr_in (lit ''bold'')) classes) (lit ''b'') inner;
          inner = wrap_if (list_ex (substr_in (lit ''italic'')) classes) (lit ''i'') inner
      in wrap_if (list_ex (substr_in (lit ''underline'')) classes) (lit ''u'') inner)"

definition link_wrapper :: "ustr \<Rightarrow> attrs \<Rightarrow> ustr \<Rightarrow> ustr" where
  "link_wrapper name at inner =
     (if name = lit ''a'' \<and> truthy (attr_href at)
      then lit ''<a href=\"'' @ html_escape (or_empty (attr_href at)) True @ lit ''\">''
           @ inner @ lit ''</a>''
      else inner)"

definition face_wrapper :: "ustr \<Rightarrow> attrs \<Rightarrow> ustr \<Rightarrow> ustr" where
  "face_wrapper name at inner =
     (let font_face = py_or (attr_face at) (attr_data_font at);
          font_face = (if \<not> truthy font_face \<and> name = lit ''span''
                       then (if truthy (attr_data_font at) then attr_data_font at else font_face)
                       else font_face)
      in if truthy font_face
         then lit ''<font face=\"'' @ html_escape (or_empty font_face) True @ lit ''\">''
              @ inner @ lit ''</font>''
         else inner)"

definition color_wrapper :: "ustr \<Rightarrow> attrs \<Rightarrow> ustr \<Rightarrow> ustr" where
  "color_wrapper name at inner =
     (if name = lit ''font'' \<and> truthy (attr_color at)
      then lit ''<font color=\"'' @ html_escape (or_empty (attr_color at)) True @ lit ''\">''
           @ inner @ lit ''</font>''
      else inner)"

definition format_wrappers :: "ustr \<Rightarrow> attrs \<Rightarrow> ustr \<Rightarrow> ustr" where
  "format_wrappers name at inner =
     (let style_attr = lower (or_empty (attr_style at));
          classes = map lower (case attr_class at of None \<Rightarrow> [] | Some cs \<Rightarrow> cs);
          inner = name_wrappers name inner;
          inner = style_wrappers style_attr inner;
          inner = class_wrappers classes inner;
          inner = link_wrapper name at inner;
          inner = face_wrapper name at inner
      in color_wrapper name at inner)"

text \<open>\<^verbatim>\<open>_render_node\<close>.\<close>

fun render_node :: "node \<Rightarrow> ustr" where
  "render_node (NavigableString text) =
     (if text = [] then []
      else wrap_yi_sequences (html_escape (replace_char 160 (lit '' '') text) False))"
| "render_node Other = []"
| "render_node (Tag nm at children) =
     (let name = lower nm in
      if name = lit ''br'' then lit ''<br/>''
      else if name = lit ''hr'' then lit ''<hr/>''
      else (let inner = concat (map render_node children) in
            if inner = [] \<and> name \<noteq> lit ''img'' then []
            else format_wrappers name at inner))"

text \<open>\<^verbatim>\<open>_render_inline_children\<close>, on the children of the tag.\<close>

definition render_inline_children :: "node list \<Rightarrow> ustr" where
  "render_inline_children children = concat (map render_node children)"

section \<open>The alignment resolver\<close>

text \<open>
  The loop of lines 139 to 145 of \<^verbatim>\<open>_extract_alignment\<close> over the segments of the
  style value: \<open>Some v\<close> when the loop returns \<open>v\<close>, \<open>None\<close> when it runs to its end.
\<close>

fun style_alignment :: "ustr list \<Rightarrow> ustr option" where
  "style_alignment [] = None"
| "style_alignment (seg # segs) =
     (let segment = strip seg in
      if startswith segment (lit ''text-align'')
      then (let val = strip (partition_after 58 segment) in
            case ALIGN_VALUE_MAP val of
              Some code \<Rightarrow> Some code
            | None \<Rightarrow> style_alignment segs)
      else style_alignment segs)"

text \<open>The loop of lines 150 to 156 over the lowered class tokens.\<close>

fun class_alignment :: "ustr list \<Rightarrow> ustr option" where
  "class_alignment [] = None"
| "class_alignment (cls # rest) =
     (if substr_in (lit ''center'') cls then Some (lit ''C'')
      else if substr_in (lit ''right'') cls then Some (lit ''R'')
      else if substr_in (lit ''justify'') cls then Some (lit ''J'')
      else class_alignment rest)"

text \<open>\<^verbatim>\<open>_extract_alignment\<close>; it reads only the attributes of the tag.\<close>

definition extract_alignment :: "attrs \<Rightarrow> ustr" where
  "extract_alignment at =
     (let style_value = lower (or_empty (attr_style at)) in
      case style_alignment (split_on 59 style_value) of
        Some code \<Rightarrow> code
      | None \<Rightarrow>
          (let align_attr = lower (or_empty (attr_align at)) in
           case ALIGN_VALUE_MAP align_attr of
             Some code \<Rightarrow> code
           | None \<Rightarrow>
               (let classes = map lower (case attr_class at of None \<Rightarrow> [] | Some cs \<Rightarrow> cs) in
                case class_alignment classes of
                  Some code \<Rightarrow> code
                | None \<Rightarrow> lit ''L'')))"

section \<open>The block renderer\<close>

text \<open>
  The variable \<^verbatim>\<open>node_align\<close> of \<^verbatim>\<open>_render_blocks_from_node\<close> after line 258: the
  alignment of the tag itself, replaced by the inherited one when it is \<^verbatim>\<open>"L"\<close>.
\<close>

definition node_align_of :: "attrs \<Rightarrow> ustr \<Rightarrow> ustr" where
  "node_align_of at inherited_align =
     (let node_align = extract_alignment at in
      if node_align = lit ''L'' then inherited_align else node_align)"

text \<open>\<^verbatim>\<open>ALIGN_WORD_MAP.get(a, "left")\<close>.\<close>

definition align_word_of :: "ustr \<Rightarrow> ustr" where
  "align_word_of a = (case ALIGN_WORD_MAP a of Some w \<Rightarrow> w | None \<Rightarrow> lit ''left'')"

text \<open>The variable \<^verbatim>\<open>align_attr\<close> (lines 259 and 260).\<close>

definition align_attr_of :: "ustr \<Rightarrow> ustr" where
  "align_attr_of node_align =
     (if node_align \<noteq> lit ''L''
      then lit '' align=\"'' @ align_word_of node_align @ lit ''\"''
      else [])"

text \<open>
  The loop of lines 291 to 294: \<^verbatim>\<open>find_all("li", recursive=False)\<close> gives the direct
  children that are tags named \<^verbatim>\<open>li\<close> (the name as the parser stored it), in order.
\<close>

fun list_items :: "node list \<Rightarrow> ustr list" where
  "list_items [] = []"
| "list_items (Tag nm at children # rest) =
     (if nm = lit ''li''
      then (let item_inner = strip (render_inline_children children) in
            if item_inner \<noteq> [] then (lit ''<li>'' @ item_inner @ lit ''</li>'') # list_items rest
            else list_items rest)
      else list_items rest)"
| "list_items (NavigableString t # rest) = list_items rest"
| "list_items (Other # rest) = list_items rest"

text \<open>
  Lines 271 to 308: what a tag gives once the \<^verbatim>\<open>div\<close> rule has not returned. None
  of these rules looks at the alignment again; they use \<^verbatim>\<open>align_attr\<close>.
\<close>

definition element_blocks :: "ustr \<Rightarrow> ustr \<Rightarrow> node list \<Rightarrow> ustr list" where
  "element_blocks name align_attr children =
     (if name \<in> {lit ''p'', lit ''section'', lit ''article''} then
        (let inner = strip (render_inline_children children) in
         if inner \<noteq> [] then [lit ''<p'' @ align_attr @ lit ''>'' @ inner @ lit ''</p>''] else [])
      else if name \<in> {lit ''h1'', lit ''h2'', lit ''h3'', lit ''h4''} then
        (let inner = strip (render_inline_children children) in
         if inner \<noteq> []
         then [lit ''<'' @ name @ align_attr @ lit ''>'' @ inner @ lit ''</'' @ name @ lit ''>'']
         else [])
      else if name = lit ''blockquote'' then
        (let inner = strip (render_inline_children children) in
         if inner \<noteq> []
         then [lit ''<blockquote'' @ align_attr @ lit ''>'' @ inner @ lit ''</blockquote>'']
         else [])
      else if name \<in> {lit ''ul'', lit ''ol''} then
        (let items = list_items children in
         if items \<noteq> [] then
           (let wrapper_open = (if align_attr \<noteq> [] then lit ''<div'' @ align_attr @ lit ''>'' else []);
                wrapper_close = (if align_attr \<noteq> [] then lit ''</div>'' else [])
            in [wrapper_open @ lit ''<'' @ name @ lit ''>'' @ concat items
                @ lit ''</'' @ name @ lit ''>'' @ wrapper_close])
         else [])
      else if name = lit ''hr'' then [lit ''<hr/>'']
      else
        (let inner = strip (render_inline_children children) in
         if inner \<noteq> [] then [lit ''<p'' @ align_attr @ lit ''>'' @ inner @ lit ''</p>''] else []))"

text \<open>The list comprehension of line 268.\<close>

definition div_wrap :: "ustr \<Rightarrow> ustr \<Rightarrow> ustr" where
  "div_wrap align_attr block = lit ''<div'' @ align_attr @ lit ''>'' @ block @ lit ''</div>''"

text \<open>\<^verbatim>\<open>_render_blocks_from_node\<close>.\<close>

fun render_blocks_from_node :: "node \<Rightarrow> ustr \<Rightarrow> ustr list" where
  "render_blocks_from_node (NavigableString t) inherited_align =
     (let content = strip (render_node (NavigableString t)) in
      if content \<noteq> []
      then [lit ''<p align=\"'' @ align_word_of inherited_align @ lit ''\">'' @ content @ lit ''</p>'']
      else [])"
| "render_blocks_from_node Other inherited_align = []"
| "render_blocks_from_node (Tag nm at children) inherited_align =
     (let name = lower nm;
          node_align = node_align_of at inherited_align;
          align_attr = align_attr_of node_align;
          child_blocks = (if name = lit ''div''
                          then concat (map (\<lambda>child. render_blocks_from_node child node_align) children)
                          else [])
      in if name = lit ''div'' \<and> child_blocks \<noteq> []
         then (if align_attr \<noteq> [] then map (div_wrap align_attr) child_blocks else child_blocks)
         else element_blocks name align_attr children)"

section \<open>The run of the program\<close>




text \<open>The exceptions the run can end with.\<close>

datatype error =
    ValueError
  | RuntimeError
  | RequestError













section \<open>Notions used to state the properties\<close>

text \<open>A tag without any attribute.\<close>

definition no_attrs :: attrs where
  "no_attrs = \<lparr>attr_style = None, attr_align = None, attr_class = None, attr_href = None,
               attr_face = None, attr_data_font = None, attr_color = None\<rparr>"

text \<open>
  What the specification says of one character of a text leaf: the non-breaking space
  becomes a space, the three markup characters become their entities.
\<close>

definition spec_text_char :: "nat \<Rightarrow> ustr" where
  "spec_text_char c =
     (if c = 160 then lit '' ''
      else if c = 38 then lit ''&amp;''
      else if c = 60 then lit ''&lt;''
      else if c = 62 then lit ''&gt;''
      else [c])"

text \<open>
  Markup in which every \<^verbatim>\<open><\<close>, \<^verbatim>\<open>&\<close> and \<^verbatim>\<open>>\<close> belongs to one of the three
  entities or to one of the two tags of the Yi font override: a sequence of other
  characters, entities and those tags.
\<close>

inductive escaped_markup :: "ustr \<Rightarrow> bool" where
  em_Nil: "escaped_markup []"
| em_Plain: "c \<noteq> 38 \<Longrightarrow> c \<noteq> 60 \<Longrightarrow> c \<noteq> 62 \<Longrightarrow> escaped_markup r \<Longrightarrow> escaped_markup (c # r)"
| em_Amp: "escaped_markup r \<Longrightarrow> escaped_markup (lit ''&amp;'' @ r)"
| em_Lt: "escaped_markup r \<Longrightarrow> escaped_markup (lit ''&lt;'' @ r)"
| em_Gt: "escaped_markup r \<Longrightarrow> escaped_markup (lit ''&gt;'' @ r)"
| em_Open: "escaped_markup r \<Longrightarrow> escaped_markup (lit ''<font face=\"NotoSansYi\">'' @ r)"
| em_Close: "escaped_markup r \<Longrightarrow> escaped_markup (lit ''</font>'' @ r)"

text \<open>Every text node under a node (the node itself included) is empty or whitespace.\<close>

fun no_renderable_text :: "node \<Rightarrow> bool" where
  "no_renderable_text (NavigableString t) = list_all isspace t"
| "no_renderable_text (Tag nm at children) = list_all no_renderable_text children"
| "no_renderable_text Other = True"

text \<open>
  Every text node under a node is empty, and no tag under it (the node itself included)
  is a \<^verbatim>\<open>br\<close>, an \<^verbatim>\<open>hr\<close> or an \<^verbatim>\<open>img\<close>.
\<close>

fun bare :: "node \<Rightarrow> bool" where
  "bare (NavigableString t) = (t = [])"
| "bare (Tag nm at children) =
     (lower nm \<notin> {lit ''br'', lit ''hr'', lit ''img''} \<and> list_all bare children)"
| "bare Other = True"

text \<open>A node inside nested \<^verbatim>\<open>div\<close> tags, the outermost first.\<close>

fun nest_divs :: "attrs list \<Rightarrow> node \<Rightarrow> node" where
  "nest_divs [] n = n"
| "nest_divs (at # ats) n = Tag (lit ''div'') at [nest_divs ats n]"

text \<open>
  The values of the \<^verbatim>\<open>text-align\<close> declarations of a style value, in order: the
  segments between semicolons that begin with \<^verbatim>\<open>text-align\<close> once trimmed, each
  reduced to what follows its first colon, trimmed.
\<close>

definition text_align_values :: "ustr \<Rightarrow> ustr list" where
  "text_align_values style_value =
     map (\<lambda>seg. strip (partition_after 58 seg))
         (filter (\<lambda>seg. startswith seg (lit ''text-align''))
                 (map strip (split_on 59 (lower style_value))))"

text \<open>The four recognized alignment words and their codes.\<close>

definition recognized :: "ustr \<Rightarrow> bool" where
  "recognized v \<longleftrightarrow> v \<in> {lit ''left'', lit ''center'', lit ''right'', lit ''justify''}"

definition align_code :: "ustr \<Rightarrow> ustr" where
  "align_code v =
     (if v = lit ''left'' then lit ''L''
      else if v = lit ''center'' then lit ''C''
      else if v = lit ''right'' then lit ''R''
      else lit ''J'')"

text \<open>A class token that names an alignment, and the alignment it names.\<close>

definition names_alignment :: "ustr \<Rightarrow> bool" where
  "names_alignment cls \<longleftrightarrow>
     substr_in (lit ''center'') cls \<or> substr_in (lit ''right'') cls \<or> substr_in (lit ''justify'') cls"

definition class_code :: "ustr \<Rightarrow> ustr" where
  "class_code cls =
     (if substr_in (lit ''center'') cls then lit ''C''
      else if substr_in (lit ''right'') cls then lit ''R''
      else lit ''J'')"

text \<open>A direct child that is a list item, and the trimmed inline content of a tag.\<close>

fun is_li :: "node \<Rightarrow> bool" where
  "is_li (Tag nm at children) = (nm = lit ''li'')"
| "is_li (NavigableString t) = False"
| "is_li Other = False"

fun trimmed_content :: "node \<Rightarrow> ustr" where
  "trimmed_content (Tag nm at children) = strip (render_inline_children children)"
| "trimmed_content (NavigableString t) = []"
| "trimmed_content Other = []"

text \<open>
  A block whose opening tag is a bare tag name, without any attribute: \<open><tg>body</tg>\<close>
  for one of the block tags.
\<close>

definition plain_tagged :: "ustr \<Rightarrow> bool" where
  "plain_tagged b \<longleftrightarrow>
     (\<exists>tg body. tg \<in> {lit ''p'', lit ''h1'', lit ''h2'', lit ''h3'', lit ''h4'',
                        lit ''blockquote'', lit ''ul'', lit ''ol''}
        \<and> b = lit ''<'' @ tg @ lit ''>'' @ body @ lit ''</'' @ tg @ lit ''>'')"



text \<open>
  The conditions of lines 204 to 216 of \<^verbatim>\<open>_render_node\<close>, by the attribute that triggers
  them, and the markup of a link and of a font face around a rendered content.
\<close>

definition style_of :: "attrs \<Rightarrow> ustr" where
  "style_of at = lower (or_empty (attr_style at))"

definition classes_of :: "attrs \<Rightarrow> ustr list" where
  "classes_of at = map lower (case attr_class at of None \<Rightarrow> [] | Some cs \<Rightarrow> cs)"

definition bold_by_style :: "attrs \<Rightarrow> bool" where
  "bold_by_style at =
     (substr_in (lit ''font-weight'') (style_of at) \<and> substr_in (lit ''bold'') (style_of at))"

definition italic_by_style :: "attrs \<Rightarrow> bool" where
  "italic_by_style at =
     (substr_in (lit ''font-style'') (style_of at) \<and> substr_in (lit ''italic'') (style_of at))"

definition underline_by_style :: "attrs \<Rightarrow> bool" where
  "underline_by_style at =
     (substr_in (lit ''text-decoration'') (style_of at)
      \<and> substr_in (lit ''underline'') (style_of at))"

definition bold_by_class :: "attrs \<Rightarrow> bool" where
  "bold_by_class at = list_ex (substr_in (lit ''bold'')) (classes_of at)"

definition italic_by_class :: "attrs \<Rightarrow> bool" where
  "italic_by_class at = list_ex (substr_in (lit ''italic'')) (classes_of at)"

definition underline_by_class :: "attrs \<Rightarrow> bool" where
  "underline_by_class at = list_ex (substr_in (lit ''underline'')) (classes_of at)"

definition all_by_style :: "attrs \<Rightarrow> bool" where
  "all_by_style at =
     (bold_by_style at \<and> italic_by_style at \<and> underline_by_style at
      \<and> \<not> bold_by_class at \<and> \<not> italic_by_class at \<and> \<not> underline_by_class at)"

definition all_by_class :: "attrs \<Rightarrow> bool" where
  "all_by_class at =
     (bold_by_class at \<and> italic_by_class at \<and> underline_by_class at
      \<and> \<not> bold_by_style at \<and> \<not> italic_by_style at \<and> \<not> underline_by_style at)"

definition in_tag :: "ustr \<Rightarrow> ustr \<Rightarrow> ustr" where
  "in_tag tag_name content = lit ''<'' @ tag_name @ lit ''>'' @ content @ lit ''</'' @ tag_name @ lit ''>''"

definition in_link :: "ustr \<Rightarrow> ustr \<Rightarrow> ustr" where
  "in_link href content =
     lit ''<a href=\"'' @ html_escape href True @ lit ''\">'' @ content @ lit ''</a>''"

definition in_font_face :: "ustr \<Rightarrow> ustr \<Rightarrow> ustr" where
  "in_font_face face content =
     lit ''<font face=\"'' @ html_escape face True @ lit ''\">'' @ content @ lit ''</font>''"

text \<open>
  The resolver as the specification words it. A declaration of a style is a segment between
  semicolons, a property and a value separated by a colon; the \<^verbatim>\<open>text-align\<close> declarations are
  those whose property, trimmed, is \<^verbatim>\<open>text-align\<close>. The class tokens are searched for
  \<^verbatim>\<open>center\<close> first, then for \<^verbatim>\<open>right\<close>, then for \<^verbatim>\<open>justify\<close>. When nothing is found the
  inherited value is returned.
\<close>

definition spec_style_values :: "ustr \<Rightarrow> ustr list" where
  "spec_style_values style_value =
     map (\<lambda>seg. strip (partition_after 58 seg))
         (filter (\<lambda>seg. strip (takeWhile (\<lambda>c. c \<noteq> 58) seg) = lit ''text-align'')
                 (split_on 59 (lower style_value)))"

definition spec_class_code :: "ustr list \<Rightarrow> ustr option" where
  "spec_class_code classes =
     (if list_ex (substr_in (lit ''center'')) classes then Some (lit ''C'')
      else if list_ex (substr_in (lit ''right'')) classes then Some (lit ''R'')
      else if list_ex (substr_in (lit ''justify'')) classes then Some (lit ''J'')
      else None)"

definition spec_resolve :: "attrs \<Rightarrow> ustr \<Rightarrow> ustr" where
  "spec_resolve at inherited =
     (case find recognized (spec_style_values (or_empty (attr_style at))) of
        Some v \<Rightarrow> align_code v
      | None \<Rightarrow>
          if recognized (lower (or_empty (attr_align at)))
          then align_code (lower (or_empty (attr_align at)))
          else (case spec_class_code
                       (map lower (case attr_class at of None \<Rightarrow> [] | Some cs \<Rightarrow> cs)) of
                  Some code \<Rightarrow> code
                | None \<Rightarrow> inherited))"

text \<open>
  The wrappers of an element in the order in which they are put on, the innermost first: each
  condition with the markup it puts around the content when it holds. The font face is the
  \<^verbatim>\<open>face\<close> attribute or, when that is missing or empty, the \<^verbatim>\<open>data-font\<close> attribute.
\<close>

definition in_font_color :: "ustr \<Rightarrow> ustr \<Rightarrow> ustr" where
  "in_font_color color content =
     lit ''<font color=\"'' @ html_escape color True @ lit ''\">'' @ content @ lit ''</font>''"

definition font_face_of :: "attrs \<Rightarrow> ustr option" where
  "font_face_of at = (if truthy (attr_face at) then attr_face at else attr_data_font at)"

definition wrapper_passes :: "ustr \<Rightarrow> attrs \<Rightarrow> (bool \<times> (ustr \<Rightarrow> ustr)) list" where
  "wrapper_passes name at =
     [(name = lit ''b'' \<or> name = lit ''strong'', in_tag (lit ''b'')),
      (name = lit ''i'' \<or> name = lit ''em'', in_tag (lit ''i'')),
      (name = lit ''u'', in_tag (lit ''u'')),
      (name = lit ''sup'' \<or> name = lit ''sub'', in_tag name),
      (bold_by_style at, in_tag (lit ''b'')),
      (italic_by_style at, in_tag (lit ''i'')),
      (underline_by_style at, in_tag (lit ''u'')),
      (bold_by_class at, in_tag (lit ''b'')),
      (italic_by_class at, in_tag (lit ''i'')),
      (underline_by_class at, in_tag (lit ''u'')),
      (name = lit ''a'' \<and> truthy (attr_href at), in_link (or_empty (attr_href at))),
      (truthy (font_face_of at), in_font_face (or_empty (font_face_of at))),
      (name = lit ''font'' \<and> truthy (attr_color at), in_font_color (or_empty (attr_color at)))]"

fun wrap_in_order :: "(bool \<times> (ustr \<Rightarrow> ustr)) list \<Rightarrow> ustr \<Rightarrow> ustr" where
  "wrap_in_order [] content = content"
| "wrap_in_order ((cond, wrapper) # rest) content =
     wrap_in_order rest (if cond then wrapper content else content)"

section \<open>Evaluation on concrete trees\<close>

lemmas eval_defs = lit_def lower_def lower_char_def html_escape_def replace_char_def is_yi_def
  format_wrappers_def apply_wrapper_def startswith_def py_or_def name_wrappers_def
  style_wrappers_def class_wrappers_def link_wrapper_def face_wrapper_def color_wrapper_def
  wrap_if_def strip_def isspace_def partition_after_def ALIGN_VALUE_MAP_def ALIGN_WORD_MAP_def
  extract_alignment_def node_align_of_def align_word_of_def align_attr_of_def
  render_inline_children_def element_blocks_def div_wrap_def yi_open_def yi_close_def no_attrs_def

section \<open>Trimming\<close>

lemma strip_empty_iff: "strip s = [] \<longleftrightarrow> (\<forall>c\<in>set s. isspace c)"
proof
  assume "strip s = []"
  then have "\<forall>x\<in>set (dropWhile isspace s). isspace x"
    by (simp add: strip_def dropWhile_eq_Nil_conv)
  then have "dropWhile isspace s = []"
    using hd_dropWhile[of isspace s] hd_in_set[of "dropWhile isspace s"] by blast
  then show "\<forall>c\<in>set s. isspace c"
    by (simp add: dropWhile_eq_Nil_conv)
next
  assume "\<forall>c\<in>set s. isspace c"
  then have "dropWhile isspace s = []"
    by (simp add: dropWhile_eq_Nil_conv)
  then show "strip s = []"
    by (simp only: strip_def rev.simps dropWhile.simps)
qed

lemma rev_split: "xs = rev (dropWhile P (rev xs)) @ rev (takeWhile P (rev xs))"
  by (metis rev_append rev_rev_ident takeWhile_dropWhile_id)

lemma strip_decomp:
  "\<exists>l r. s = l @ strip s @ r \<and> (\<forall>c\<in>set l. isspace c) \<and> (\<forall>c\<in>set r. isspace c)"
proof -
  let ?d = "dropWhile isspace s"
  have d: "?d = strip s @ rev (takeWhile isspace (rev ?d))"
    unfolding strip_def by (rule rev_split)
  have "s = takeWhile isspace s @ ?d"
    by simp
  then have "s = takeWhile isspace s @ strip s @ rev (takeWhile isspace (rev ?d))"
    using d by simp
  moreover have "\<forall>c\<in>set (takeWhile isspace s). isspace c"
    by (auto dest: set_takeWhileD)
  moreover have "\<forall>c\<in>set (rev (takeWhile isspace (rev ?d))). isspace c"
    by (auto dest: set_takeWhileD)
  ultimately show ?thesis by blast
qed

lemma strip_ends:
  assumes "strip s \<noteq> []"
  shows "\<not> isspace (hd (strip s))" and "\<not> isspace (last (strip s))"
proof -
  let ?d = "dropWhile isspace s"
  let ?x = "dropWhile isspace (rev ?d)"
  have x: "?x \<noteq> []" using assms by (simp add: strip_def)
  have "last (strip s) = hd ?x"
    using x by (simp add: strip_def last_rev)
  then show "\<not> isspace (last (strip s))"
    using hd_dropWhile[OF x] by simp
  have d: "?d = strip s @ rev (takeWhile isspace (rev ?d))"
    unfolding strip_def by (rule rev_split)
  then have "?d \<noteq> []" using assms by (metis append_is_Nil_conv)
  then have "\<not> isspace (hd ?d)" by (rule hd_dropWhile)
  moreover have "hd ?d = hd (strip s)"
    using d assms by (metis hd_append2)
  ultimately show "\<not> isspace (hd (strip s))" by simp
qed

section \<open>A div without child blocks\<close>

lemma element_blocks_div:
  "element_blocks (lit ''div'') aa children =
     (let inner = strip (render_inline_children children) in
      if inner \<noteq> [] then [lit ''<p'' @ aa @ lit ''>'' @ inner @ lit ''</p>''] else [])"
  by (simp add: element_blocks_def lit_def)

text \<open>
  Claim C10. A \<^verbatim>\<open>div\<close> whose children give no block does not return from the
  \<^verbatim>\<open>div\<close> rule: the fallback rule renders its inline content and emits one paragraph
  when that content is not empty after trimming. The instance below is the \<^verbatim>\<open>div\<close>
  that holds only a \<^verbatim>\<open>br\<close>: one paragraph with the line break.
\<close>

theorem div_without_child_blocks_falls_through:
  assumes "lower nm = lit ''div''"
    and "concat (map (\<lambda>child. render_blocks_from_node child (node_align_of at a)) children) = []"
  shows "render_blocks_from_node (Tag nm at children) a =
     (let inner = strip (render_inline_children children) in
      if inner \<noteq> []
      then [lit ''<p'' @ align_attr_of (node_align_of at a) @ lit ''>'' @ inner @ lit ''</p>'']
      else [])"
proof -
  have "render_blocks_from_node (Tag nm at children) a =
        element_blocks (lit ''div'') (align_attr_of (node_align_of at a)) children"
    using assms by (simp add: Let_def)
  then show ?thesis
    by (simp only: element_blocks_div)
qed

theorem div_without_child_blocks_falls_through_witness:
  "render_blocks_from_node (Tag (lit ''div'') no_attrs [Tag (lit ''br'') no_attrs []]) (lit ''L'')
     = [lit ''<p><br/></p>'']"
  using div_without_child_blocks_falls_through
          [of "lit ''div''" no_attrs "lit ''L''" "[Tag (lit ''br'') no_attrs []]"]
  by (simp add: eval_defs)

section \<open>Lists\<close>

lemma list_items_spec:
  "list_items children =
     map (\<lambda>n. lit ''<li>'' @ trimmed_content n @ lit ''</li>'')
         (filter (\<lambda>n. is_li n \<and> trimmed_content n \<noteq> []) children)"
  by (induction children rule: list_items.induct) (simp_all add: Let_def)

lemma align_attr_of_empty: "align_attr_of x = [] \<longleftrightarrow> x = lit ''L''"
  by (simp add: align_attr_of_def lit_def)

lemma element_blocks_list:
  assumes "name \<in> {lit ''ul'', lit ''ol''}"
  shows "element_blocks name aa children =
     (if list_items children = [] then []
      else [(if aa \<noteq> [] then lit ''<div'' @ aa @ lit ''>'' else [])
            @ lit ''<'' @ name @ lit ''>'' @ concat (list_items children)
            @ lit ''</'' @ name @ lit ''>'' @ (if aa \<noteq> [] then lit ''</div>'' else [])])"
proof -
  have "name \<notin> {lit ''p'', lit ''section'', lit ''article''}"
       "name \<notin> {lit ''h1'', lit ''h2'', lit ''h3'', lit ''h4''}"
       "name \<noteq> lit ''blockquote''"
    using assms by (auto simp: lit_def)
  then show ?thesis
    using assms by (simp add: element_blocks_def Let_def)
qed

lemma not_div_list: "name \<in> {lit ''ul'', lit ''ol''} \<Longrightarrow> name \<noteq> lit ''div''"
  by (auto simp: lit_def)

text \<open>
  Claim C7. Of an ordered or unordered list, the direct children that are list items and
  whose inline content is not empty after trimming become the items, in source order, each
  holding its trimmed content. When there is at least one, exactly one block is emitted: the
  list, inside an alignment container only when the alignment is not the default. Trimming
  removes the whitespace at both ends and nothing else: the trimmed content is empty exactly
  when the content is all whitespace, the content is the trimmed content between two
  stretches of whitespace, and a trimmed content that is not empty neither begins nor ends
  with whitespace.
\<close>

theorem list_block_from_nonempty_items:
  "(lower nm \<in> {lit ''ul'', lit ''ol''} \<longrightarrow>
     render_blocks_from_node (Tag nm at children) a =
     (let items = map (\<lambda>n. lit ''<li>'' @ trimmed_content n @ lit ''</li>'')
                      (filter (\<lambda>n. is_li n \<and> trimmed_content n \<noteq> []) children);
          the_list = lit ''<'' @ lower nm @ lit ''>'' @ concat items @ lit ''</'' @ lower nm @ lit ''>''
      in if items = [] then []
         else if node_align_of at a = lit ''L'' then [the_list]
         else [lit ''<div align=\"'' @ align_word_of (node_align_of at a) @ lit ''\">''
               @ the_list @ lit ''</div>'']))
   \<and> (trimmed_content (Tag inm iat ichildren) = []
        \<longleftrightarrow> (\<forall>c\<in>set (render_inline_children ichildren). isspace c))
   \<and> (\<exists>l r. render_inline_children ichildren = l @ trimmed_content (Tag inm iat ichildren) @ r
             \<and> (\<forall>c\<in>set l. isspace c) \<and> (\<forall>c\<in>set r. isspace c))
   \<and> (trimmed_content (Tag inm iat ichildren) \<noteq> []
        \<longrightarrow> \<not> isspace (hd (trimmed_content (Tag inm iat ichildren)))
            \<and> \<not> isspace (last (trimmed_content (Tag inm iat ichildren))))"
proof -
  have 1: "lower nm \<in> {lit ''ul'', lit ''ol''} \<longrightarrow>
     render_blocks_from_node (Tag nm at children) a =
     (let items = map (\<lambda>n. lit ''<li>'' @ trimmed_content n @ lit ''</li>'')
                      (filter (\<lambda>n. is_li n \<and> trimmed_content n \<noteq> []) children);
          the_list = lit ''<'' @ lower nm @ lit ''>'' @ concat items @ lit ''</'' @ lower nm @ lit ''>''
      in if items = [] then []
         else if node_align_of at a = lit ''L'' then [the_list]
         else [lit ''<div align=\"'' @ align_word_of (node_align_of at a) @ lit ''\">''
               @ the_list @ lit ''</div>''])"
  proof
    assume l: "lower nm \<in> {lit ''ul'', lit ''ol''}"
    have "render_blocks_from_node (Tag nm at children) a =
          element_blocks (lower nm) (align_attr_of (node_align_of at a)) children"
      using not_div_list[OF l] by (simp add: Let_def)
    then show "render_blocks_from_node (Tag nm at children) a =
     (let items = map (\<lambda>n. lit ''<li>'' @ trimmed_content n @ lit ''</li>'')
                      (filter (\<lambda>n. is_li n \<and> trimmed_content n \<noteq> []) children);
          the_list = lit ''<'' @ lower nm @ lit ''>'' @ concat items @ lit ''</'' @ lower nm @ lit ''>''
      in if items = [] then []
         else if node_align_of at a = lit ''L'' then [the_list]
         else [lit ''<div align=\"'' @ align_word_of (node_align_of at a) @ lit ''\">''
               @ the_list @ lit ''</div>''])"
      by (simp add: element_blocks_list[OF l] list_items_spec[symmetric] align_attr_of_empty Let_def)
         (simp add: align_attr_of_def lit_def)
  qed
  have 2: "trimmed_content (Tag inm iat ichildren) = []
        \<longleftrightarrow> (\<forall>c\<in>set (render_inline_children ichildren). isspace c)"
    by (simp add: strip_empty_iff)
  have 3: "\<exists>l r. render_inline_children ichildren = l @ trimmed_content (Tag inm iat ichildren) @ r
             \<and> (\<forall>c\<in>set l. isspace c) \<and> (\<forall>c\<in>set r. isspace c)"
    using strip_decomp[of "render_inline_children ichildren"] by simp
  have 4: "trimmed_content (Tag inm iat ichildren) \<noteq> []
        \<longrightarrow> \<not> isspace (hd (trimmed_content (Tag inm iat ichildren)))
            \<and> \<not> isspace (last (trimmed_content (Tag inm iat ichildren)))"
    using strip_ends[of "render_inline_children ichildren"] by simp
  show ?thesis
    using 1 2 3 4 by blast
qed

theorem list_block_from_nonempty_items_witness:
  "render_blocks_from_node
     (Tag (lit ''ul'') no_attrs
        [Tag (lit ''li'') no_attrs [NavigableString (lit ''One'')],
         Tag (lit ''li'') no_attrs [],
         Tag (lit ''li'') no_attrs [NavigableString (lit ''Two'')]]) (lit ''L'')
   = [lit ''<ul><li>One</li><li>Two</li></ul>'']
   \<and> render_blocks_from_node
     (Tag (lit ''OL'') (no_attrs\<lparr>attr_align := Some (lit ''center'')\<rparr>)
        [NavigableString (lit '' x ''),
         Tag (lit ''li'') no_attrs [NavigableString (lit '' One '')],
         Tag (lit ''li'') no_attrs [NavigableString (lit ''  '')],
         Tag (lit ''div'') no_attrs [Tag (lit ''li'') no_attrs [NavigableString (lit ''Deep'')]],
         Tag (lit ''li'') no_attrs
           [Tag (lit ''b'') no_attrs [NavigableString (lit ''Two'')], NavigableString (lit '' '')]])
     (lit ''L'')
   = [lit ''<div align=\"center\"><ol><li>One</li><li><b>Two</b></li></ol></div>'']
   \<and> trimmed_content (Tag (lit ''li'') no_attrs [NavigableString (lit ''  '')]) = []
   \<and> trimmed_content (Tag (lit ''li'') no_attrs [NavigableString (lit '' One '')]) = lit ''One''"
proof -
  let ?ul = "[Tag (lit ''li'') no_attrs [NavigableString (lit ''One'')],
         Tag (lit ''li'') no_attrs [],
         Tag (lit ''li'') no_attrs [NavigableString (lit ''Two'')]]"
  let ?at = "no_attrs\<lparr>attr_align := Some (lit ''center'')\<rparr>"
  let ?ol = "[NavigableString (lit '' x ''),
         Tag (lit ''li'') no_attrs [NavigableString (lit '' One '')],
         Tag (lit ''li'') no_attrs [NavigableString (lit ''  '')],
         Tag (lit ''div'') no_attrs [Tag (lit ''li'') no_attrs [NavigableString (lit ''Deep'')]],
         Tag (lit ''li'') no_attrs
           [Tag (lit ''b'') no_attrs [NavigableString (lit ''Two'')], NavigableString (lit '' '')]]"
  have n: "lower (lit ''ul'') \<in> {lit ''ul'', lit ''ol''}" "lower (lit ''OL'') \<in> {lit ''ul'', lit ''ol''}"
    by (simp_all add: lit_def lower_def lower_char_def)
  have 1: "render_blocks_from_node (Tag (lit ''ul'') no_attrs ?ul) (lit ''L'')
           = [lit ''<ul><li>One</li><li>Two</li></ul>'']"
    using list_block_from_nonempty_items
      [where nm = "lit ''ul''" and at = no_attrs and children = "?ul" and a = "lit ''L''",
       THEN conjunct1] n(1)
    by (simp add: eval_defs)
  have 2: "render_blocks_from_node (Tag (lit ''OL'') ?at ?ol) (lit ''L'')
           = [lit ''<div align=\"center\"><ol><li>One</li><li><b>Two</b></li></ol></div>'']"
    using list_block_from_nonempty_items
      [where nm = "lit ''OL''" and at = "?at" and children = "?ol" and a = "lit ''L''",
       THEN conjunct1] n(2)
    by (simp add: eval_defs)
  have s: "\<forall>c\<in>set (render_inline_children [NavigableString (lit ''  '')]). isspace c"
    by (simp add: eval_defs)
  have 3: "trimmed_content (Tag (lit ''li'') no_attrs [NavigableString (lit ''  '')]) = []"
    using list_block_from_nonempty_items
      [where inm = "lit ''li''" and iat = no_attrs and ichildren = "[NavigableString (lit ''  '')]",
       THEN conjunct2, THEN conjunct1] s
    by blast
  have 4: "trimmed_content (Tag (lit ''li'') no_attrs [NavigableString (lit '' One '')]) = lit ''One''"
    by (simp add: eval_defs)
  show ?thesis
    using 1 2 3 4 by blast
qed

section \<open>The div container\<close>

lemma div_wrap_neq: "div_wrap aa block \<noteq> block"
proof
  assume "div_wrap aa block = block"
  then have "length (div_wrap aa block) = length block" by simp
  then show False by (simp add: div_wrap_def lit_def)
qed

lemma map_div_wrap_neq: "bs \<noteq> [] \<Longrightarrow> map (div_wrap aa) bs \<noteq> bs"
  by (cases bs) (auto simp: div_wrap_neq)

text \<open>
  Claim C4, as amended. A \<^verbatim>\<open>div\<close> resolves its alignment, renders each child under
  the resolved alignment and, when the children gave blocks, puts every child block into
  a \<^verbatim>\<open>div\<close> of its own that carries the alignment if and only if the resolved
  alignment is not \<^verbatim>\<open>L\<close>; when it is \<^verbatim>\<open>L\<close> the child blocks pass through as they
  are. Whether the resolved alignment differs from the inherited one plays no role.
\<close>

theorem div_wraps_iff_not_left:
  assumes "lower nm = lit ''div''"
    and "cb = concat (map (\<lambda>child. render_blocks_from_node child (node_align_of at a)) children)"
    and "cb \<noteq> []"
  shows "render_blocks_from_node (Tag nm at children) a =
           (if node_align_of at a \<noteq> lit ''L''
            then map (\<lambda>block. lit ''<div align=\"'' @ align_word_of (node_align_of at a) @ lit ''\">''
                              @ block @ lit ''</div>'') cb
            else cb)
         \<and> (render_blocks_from_node (Tag nm at children) a = cb \<longleftrightarrow> node_align_of at a = lit ''L'')"
proof -
  let ?aa = "align_attr_of (node_align_of at a)"
  have r: "render_blocks_from_node (Tag nm at children) a =
           (if ?aa \<noteq> [] then map (div_wrap ?aa) cb else cb)"
    using assms by (simp add: Let_def)
  have w: "node_align_of at a \<noteq> lit ''L'' \<Longrightarrow>
           div_wrap ?aa = (\<lambda>block. lit ''<div align=\"'' @ align_word_of (node_align_of at a) @ lit ''\">''
                              @ block @ lit ''</div>'')"
    by (rule ext) (simp add: div_wrap_def align_attr_of_def lit_def)
  show ?thesis
  proof (cases "node_align_of at a = lit ''L''")
    case True
    then show ?thesis using r by (simp add: align_attr_of_empty)
  next
    case False
    then have "render_blocks_from_node (Tag nm at children) a = map (div_wrap ?aa) cb"
      using r by (simp add: align_attr_of_empty)
    then show ?thesis
      using False w map_div_wrap_neq[OF assms(3), of ?aa] by simp
  qed
qed

theorem div_wraps_iff_not_left_witness:
  "render_blocks_from_node
     (Tag (lit ''div'') (no_attrs\<lparr>attr_align := Some (lit ''right'')\<rparr>) [NavigableString (lit ''x'')])
     (lit ''C'')
   = [lit ''<div align=\"right\"><p align=\"right\">x</p></div>'']"
  using div_wraps_iff_not_left
    [of "lit ''div''" "[lit ''<p align=\"right\">x</p>'']" "no_attrs\<lparr>attr_align := Some (lit ''right'')\<rparr>"
        "lit ''C''" "[NavigableString (lit ''x'')]"]
  by (simp add: eval_defs)

text \<open>
  Claim C4 as stated fails: a \<^verbatim>\<open>div\<close> without alignment under the inherited alignment
  \<^verbatim>\<open>C\<close> resolves to \<^verbatim>\<open>C\<close>, the inherited value, and still wraps its child block.
\<close>

theorem div_wraps_when_alignment_inherited:
  "node_align_of no_attrs (lit ''C'') = lit ''C''
   \<and> render_blocks_from_node (NavigableString (lit ''x'')) (lit ''C'') = [lit ''<p align=\"center\">x</p>'']
   \<and> render_blocks_from_node (Tag (lit ''div'') no_attrs [NavigableString (lit ''x'')]) (lit ''C'')
       = [lit ''<div align=\"center\"><p align=\"center\">x</p></div>'']"
  by (simp add: eval_defs)

section \<open>The align attribute of a block\<close>

lemma align_word_of_cases:
  "align_word_of a \<in> {lit ''left'', lit ''center'', lit ''right'', lit ''justify''}"
  by (simp add: align_word_of_def ALIGN_WORD_MAP_def split: option.splits if_splits)

lemma align_word_of_L: "align_word_of (lit ''L'') = lit ''left''"
  by (simp add: align_word_of_def ALIGN_WORD_MAP_def lit_def)

lemma plain_taggedI:
  "tg \<in> {lit ''p'', lit ''h1'', lit ''h2'', lit ''h3'', lit ''h4'',
          lit ''blockquote'', lit ''ul'', lit ''ol''} \<Longrightarrow>
   plain_tagged (lit ''<'' @ tg @ lit ''>'' @ body @ lit ''</'' @ tg @ lit ''>'')"
  unfolding plain_tagged_def by blast

lemma p_tagged: "plain_tagged (lit ''<p'' @ [] @ lit ''>'' @ inner @ lit ''</p>'')"
  using plain_taggedI[of "lit ''p''" inner] by (simp add: lit_def)

lemma bq_tagged: "plain_tagged (lit ''<blockquote'' @ [] @ lit ''>'' @ inner @ lit ''</blockquote>'')"
  using plain_taggedI[of "lit ''blockquote''" inner] by (simp add: lit_def)

lemma element_blocks_no_attr:
  assumes "b \<in> set (element_blocks name [] children)"
  shows "b = lit ''<hr/>'' \<or> plain_tagged b"
proof -
  consider (p) "name \<in> {lit ''p'', lit ''section'', lit ''article''}"
    | (h) "name \<notin> {lit ''p'', lit ''section'', lit ''article''}"
          "name \<in> {lit ''h1'', lit ''h2'', lit ''h3'', lit ''h4''}"
    | (bq) "name \<notin> {lit ''p'', lit ''section'', lit ''article''}"
          "name \<notin> {lit ''h1'', lit ''h2'', lit ''h3'', lit ''h4''}" "name = lit ''blockquote''"
    | (l) "name \<notin> {lit ''p'', lit ''section'', lit ''article''}"
          "name \<notin> {lit ''h1'', lit ''h2'', lit ''h3'', lit ''h4''}" "name \<noteq> lit ''blockquote''"
          "name \<in> {lit ''ul'', lit ''ol''}"
    | (hr) "name \<notin> {lit ''p'', lit ''section'', lit ''article''}"
          "name \<notin> {lit ''h1'', lit ''h2'', lit ''h3'', lit ''h4''}" "name \<noteq> lit ''blockquote''"
          "name \<notin> {lit ''ul'', lit ''ol''}" "name = lit ''hr''"
    | (other) "name \<notin> {lit ''p'', lit ''section'', lit ''article''}"
          "name \<notin> {lit ''h1'', lit ''h2'', lit ''h3'', lit ''h4''}" "name \<noteq> lit ''blockquote''"
          "name \<notin> {lit ''ul'', lit ''ol''}" "name \<noteq> lit ''hr''"
    by blast
  then show ?thesis
  proof cases
    case p
    then have "b = lit ''<p'' @ [] @ lit ''>'' @ strip (render_inline_children children) @ lit ''</p>''"
      using assms by (simp add: element_blocks_def Let_def split: if_splits)
    then show ?thesis using p_tagged by simp
  next
    case h
    then have "b = lit ''<'' @ name @ lit ''>'' @ strip (render_inline_children children)
                    @ lit ''</'' @ name @ lit ''>''"
      using assms by (simp add: element_blocks_def Let_def split: if_splits)
    moreover have "name \<in> {lit ''p'', lit ''h1'', lit ''h2'', lit ''h3'', lit ''h4'',
          lit ''blockquote'', lit ''ul'', lit ''ol''}" using h(2) by blast
    ultimately show ?thesis using plain_taggedI by blast
  next
    case bq
    then have "b = lit ''<blockquote'' @ [] @ lit ''>'' @ strip (render_inline_children children)
                    @ lit ''</blockquote>''"
      using assms by (simp add: element_blocks_def Let_def split: if_splits)
    then show ?thesis using bq_tagged by simp
  next
    case l
    then have "b = lit ''<'' @ name @ lit ''>'' @ concat (list_items children)
                    @ lit ''</'' @ name @ lit ''>''"
      using assms by (simp add: element_blocks_def Let_def split: if_splits)
    moreover have "name \<in> {lit ''p'', lit ''h1'', lit ''h2'', lit ''h3'', lit ''h4'',
          lit ''blockquote'', lit ''ul'', lit ''ol''}" using l(4) by blast
    ultimately show ?thesis using plain_taggedI by blast
  next
    case hr
    then show ?thesis using assms by (simp add: element_blocks_def Let_def)
  next
    case other
    then have "b = lit ''<p'' @ [] @ lit ''>'' @ strip (render_inline_children children) @ lit ''</p>''"
      using assms by (simp add: element_blocks_def Let_def split: if_splits)
    then show ?thesis using p_tagged by simp
  qed
qed

text \<open>
  Claim C9. A text leaf at block level whose trimmed rendering is not empty gives a
  paragraph that always carries an \<^verbatim>\<open>align\<close> attribute, one of the four words, and
  \<^verbatim>\<open>align="left"\<close> under the default alignment. A tag whose resolved alignment is
  \<^verbatim>\<open>L\<close> gives the blocks of its children unchanged (a \<^verbatim>\<open>div\<close> with child blocks) or
  the blocks of its own rule built with an empty \<^verbatim>\<open>align_attr\<close>, and each of those is
  \<^verbatim>\<open><hr/>\<close> or opens with a bare tag name.
\<close>

theorem text_leaf_block_always_has_align:
  "(strip (render_node (NavigableString t)) \<noteq> [] \<longrightarrow>
      render_blocks_from_node (NavigableString t) a =
        [lit ''<p align=\"'' @ align_word_of a @ lit ''\">''
         @ strip (render_node (NavigableString t)) @ lit ''</p>''])
   \<and> align_word_of a \<in> {lit ''left'', lit ''center'', lit ''right'', lit ''justify''}
   \<and> align_word_of (lit ''L'') = lit ''left''
   \<and> (node_align_of at a = lit ''L'' \<longrightarrow>
        render_blocks_from_node (Tag nm at children) a =
          (let cb = concat (map (\<lambda>child. render_blocks_from_node child (lit ''L'')) children) in
           if lower nm = lit ''div'' \<and> cb \<noteq> [] then cb
           else element_blocks (lower nm) [] children))
   \<and> (\<forall>b \<in> set (element_blocks name [] children). b = lit ''<hr/>'' \<or> plain_tagged b)"
proof -
  have "node_align_of at a = lit ''L'' \<Longrightarrow>
        render_blocks_from_node (Tag nm at children) a =
          (let cb = concat (map (\<lambda>child. render_blocks_from_node child (lit ''L'')) children) in
           if lower nm = lit ''div'' \<and> cb \<noteq> [] then cb
           else element_blocks (lower nm) [] children)"
    by (auto simp: Let_def align_attr_of_empty[THEN iffD2])
  then show ?thesis
    using align_word_of_cases align_word_of_L element_blocks_no_attr
    by (simp add: Let_def)
qed

theorem text_leaf_block_always_has_align_witness:
  "render_blocks_from_node (NavigableString (lit ''x'')) (lit ''L'') = [lit ''<p align=\"left\">x</p>'']
   \<and> render_blocks_from_node (Tag (lit ''p'') no_attrs [NavigableString (lit ''x'')]) (lit ''L'')
       = [lit ''<p>x</p>'']
   \<and> plain_tagged (lit ''<p>x</p>'')"
  using text_leaf_block_always_has_align
    [where t = "lit ''x''" and a = "lit ''L''" and at = no_attrs and nm = "lit ''p''"
       and children = "[NavigableString (lit ''x'')]" and name = "lit ''p''"]
  by (simp add: eval_defs)

section \<open>Inheritance of the alignment\<close>

lemma lower_div: "lower (lit ''div'') = lit ''div''"
  by (simp add: lit_def lower_def lower_char_def)

lemma node_align_of_unset: "extract_alignment at = lit ''L'' \<Longrightarrow> node_align_of at a = a"
  by (simp add: node_align_of_def)

lemma node_align_of_set: "extract_alignment at \<noteq> lit ''L'' \<Longrightarrow> node_align_of at a = extract_alignment at"
  by (simp add: node_align_of_def)

lemma div_step:
  assumes "extract_alignment at = lit ''L''" and "render_blocks_from_node c a \<noteq> []"
  shows "render_blocks_from_node (Tag (lit ''div'') at [c]) a =
           (if a = lit ''L'' then render_blocks_from_node c a
            else map (div_wrap (align_attr_of a)) (render_blocks_from_node c a))"
  using assms by (simp add: lower_div Let_def node_align_of_unset align_attr_of_empty)

lemma nest_divs_blocks:
  assumes "\<forall>x \<in> set ats. extract_alignment x = lit ''L''" and "render_blocks_from_node n a \<noteq> []"
  shows "render_blocks_from_node (nest_divs ats n) a =
           (if a = lit ''L'' then render_blocks_from_node n a
            else map (div_wrap (align_attr_of a) ^^ length ats) (render_blocks_from_node n a))"
  using assms
proof (induction ats)
  case Nil
  then show ?case by simp
next
  case (Cons at ats)
  let ?cb = "render_blocks_from_node (nest_divs ats n) a"
  have ih: "?cb = (if a = lit ''L'' then render_blocks_from_node n a
            else map (div_wrap (align_attr_of a) ^^ length ats) (render_blocks_from_node n a))"
    using Cons by simp
  then have ne: "?cb \<noteq> []" using Cons.prems(2) by (simp split: if_splits)
  have at: "extract_alignment at = lit ''L''" using Cons.prems(1) by simp
  have step: "render_blocks_from_node (Tag (lit ''div'') at [nest_divs ats n]) a =
        (if a = lit ''L'' then ?cb else map (div_wrap (align_attr_of a)) ?cb)"
    by (rule div_step[OF at ne])
  show ?case
  proof (cases "a = lit ''L''")
    case True
    then show ?thesis using step ih by (simp del: render_blocks_from_node.simps)
  next
    case False
    then show ?thesis using step ih by (simp del: render_blocks_from_node.simps)
  qed
qed

text \<open>
  Claim C5. The alignment of a tag itself replaces the inherited one only when it is not
  \<^verbatim>\<open>L\<close>: then the inherited alignment plays no role in what the tag renders to; a
  tag that resolves to \<^verbatim>\<open>L\<close> keeps the inherited value. So a node inside any number of
  nested \<^verbatim>\<open>div\<close> tags that set no alignment is rendered under the alignment that comes
  from outside them, down to the default \<^verbatim>\<open>L\<close> (where nothing is wrapped); and the two
  paragraphs without alignment inside a centered \<^verbatim>\<open>div\<close> are both centered.
\<close>

theorem alignment_inherited_unless_own_is_not_left:
  "(extract_alignment at \<noteq> lit ''L'' \<longrightarrow>
      node_align_of at a = extract_alignment at
      \<and> render_blocks_from_node (Tag nm at children) a = render_blocks_from_node (Tag nm at children) a')
   \<and> (extract_alignment at = lit ''L'' \<longrightarrow> node_align_of at a = a)
   \<and> ((\<forall>x \<in> set ats. extract_alignment x = lit ''L'') \<and> render_blocks_from_node n a \<noteq> [] \<longrightarrow>
        render_blocks_from_node (nest_divs ats n) a =
          (if a = lit ''L'' then render_blocks_from_node n a
           else map (div_wrap (align_attr_of a) ^^ length ats) (render_blocks_from_node n a)))
   \<and> render_blocks_from_node
        (Tag (lit ''div'') (no_attrs\<lparr>attr_style := Some (lit ''text-align:center'')\<rparr>)
           [Tag (lit ''p'') no_attrs [NavigableString (lit ''a'')],
            Tag (lit ''p'') no_attrs [NavigableString (lit ''b'')]]) (lit ''L'')
      = [lit ''<div align=\"center\"><p align=\"center\">a</p></div>'',
         lit ''<div align=\"center\"><p align=\"center\">b</p></div>'']"
proof -
  have 1: "extract_alignment at \<noteq> lit ''L'' \<Longrightarrow>
      render_blocks_from_node (Tag nm at children) a = render_blocks_from_node (Tag nm at children) a'"
    by (simp add: node_align_of_set)
  have 4: "render_blocks_from_node
        (Tag (lit ''div'') (no_attrs\<lparr>attr_style := Some (lit ''text-align:center'')\<rparr>)
           [Tag (lit ''p'') no_attrs [NavigableString (lit ''a'')],
            Tag (lit ''p'') no_attrs [NavigableString (lit ''b'')]]) (lit ''L'')
      = [lit ''<div align=\"center\"><p align=\"center\">a</p></div>'',
         lit ''<div align=\"center\"><p align=\"center\">b</p></div>'']"
    by (simp add: eval_defs)
  show ?thesis
    using 1 4 nest_divs_blocks node_align_of_unset node_align_of_set by blast
qed

theorem alignment_inherited_unless_own_is_not_left_witness:
  "node_align_of (no_attrs\<lparr>attr_align := Some (lit ''right'')\<rparr>) (lit ''C'') = lit ''R''
   \<and> node_align_of no_attrs (lit ''C'') = lit ''C''
   \<and> render_blocks_from_node
        (nest_divs [no_attrs, no_attrs] (Tag (lit ''p'') no_attrs [NavigableString (lit ''x'')])) (lit ''C'')
      = [lit ''<div align=\"center\"><div align=\"center\"><p align=\"center\">x</p></div></div>'']"
proof -
  let ?A = "no_attrs\<lparr>attr_align := Some (lit ''right'')\<rparr>"
  let ?P = "Tag (lit ''p'') no_attrs [NavigableString (lit ''x'')]"
  note t = alignment_inherited_unless_own_is_not_left
             [where at = ?A and a = "lit ''C''" and ats = "[no_attrs, no_attrs]" and n = ?P]
  note u = alignment_inherited_unless_own_is_not_left
             [where at = no_attrs and a = "lit ''C''" and ats = "[]" and n = Other]
  have eA: "extract_alignment ?A = lit ''R''" by (simp add: eval_defs)
  have eN: "extract_alignment no_attrs = lit ''L''" by (simp add: eval_defs)
  have rl: "lit ''R'' \<noteq> lit ''L''" "lit ''C'' \<noteq> lit ''L''" by (simp_all add: lit_def)
  have p: "render_blocks_from_node ?P (lit ''C'') = [lit ''<p align=\"center\">x</p>'']"
    by (simp add: eval_defs)
  have 1: "node_align_of ?A (lit ''C'') = lit ''R''"
    using t[THEN conjunct1] eA rl by simp
  have 2: "node_align_of no_attrs (lit ''C'') = lit ''C''"
    using u[THEN conjunct2, THEN conjunct1] eN by simp
  have "render_blocks_from_node (nest_divs [no_attrs, no_attrs] ?P) (lit ''C'')
        = map (div_wrap (align_attr_of (lit ''C'')) ^^ length [no_attrs, no_attrs])
              (render_blocks_from_node ?P (lit ''C''))"
    using t[THEN conjunct2, THEN conjunct2, THEN conjunct1] eN rl p
    by (simp del: render_blocks_from_node.simps nest_divs.simps)
  then have 3: "render_blocks_from_node (nest_divs [no_attrs, no_attrs] ?P) (lit ''C'')
      = [lit ''<div align=\"center\"><div align=\"center\"><p align=\"center\">x</p></div></div>'']"
    unfolding p
    by (simp add: numeral_2_eq_2 div_wrap_def align_attr_of_def align_word_of_def ALIGN_WORD_MAP_def lit_def
             del: render_blocks_from_node.simps nest_divs.simps)
  show ?thesis using 1 2 3 by blast
qed

section \<open>The order of the alignment resolver\<close>

lemma ALIGN_VALUE_MAP_eq:
  "ALIGN_VALUE_MAP v = (if recognized v then Some (align_code v) else None)"
  by (simp add: ALIGN_VALUE_MAP_def recognized_def align_code_def lit_def)

lemma style_alignment_values:
  "style_alignment (split_on 59 (lower style_value)) =
     map_option align_code (find recognized (text_align_values style_value))"
proof -
  have "style_alignment segs =
     map_option align_code
       (find recognized
          (map (\<lambda>seg. strip (partition_after 58 seg))
               (filter (\<lambda>seg. startswith seg (lit ''text-align'')) (map strip segs))))" for segs
    by (induction segs) (simp_all add: Let_def ALIGN_VALUE_MAP_eq)
  then show ?thesis
    by (simp add: text_align_values_def)
qed

lemma class_alignment_first:
  "class_alignment classes = map_option class_code (find names_alignment classes)"
  by (induction classes) (simp_all add: names_alignment_def class_code_def)

lemma align_code_range: "align_code v \<in> {lit ''L'', lit ''C'', lit ''R'', lit ''J''}"
  by (simp add: align_code_def)

lemma class_code_range: "class_code c \<in> {lit ''L'', lit ''C'', lit ''R'', lit ''J''}"
  by (simp add: class_code_def)

lemma extract_alignment_steps:
  "extract_alignment at =
     (case find recognized (text_align_values (or_empty (attr_style at))) of
        Some v \<Rightarrow> align_code v
      | None \<Rightarrow>
          if recognized (lower (or_empty (attr_align at)))
          then align_code (lower (or_empty (attr_align at)))
          else (case find names_alignment
                       (map lower (case attr_class at of None \<Rightarrow> [] | Some cs \<Rightarrow> cs)) of
                  Some cls \<Rightarrow> class_code cls
                | None \<Rightarrow> lit ''L''))"
  by (simp add: extract_alignment_def style_alignment_values class_alignment_first
        ALIGN_VALUE_MAP_eq Let_def split: option.splits)

lemma extract_alignment_range:
  "extract_alignment at \<in> {lit ''L'', lit ''C'', lit ''R'', lit ''J''}"
  unfolding extract_alignment_steps
  using align_code_range class_code_range
  by (auto split: option.splits)

text \<open>
  Claim C6, as the program behaves. The resolver looks, in this order, at the segments of the
  style that begin with \<^verbatim>\<open>text-align\<close> (lowered, trimmed), of which the first whose value is
  one of the four recognized words decides; else at the \<^verbatim>\<open>align\<close> attribute (lowered), which
  decides when it is one of the four words; else at the class tokens (lowered) in their order,
  of which the first that contains \<^verbatim>\<open>center\<close>, \<^verbatim>\<open>right\<close> or \<^verbatim>\<open>justify\<close> decides, these
  three being tested in that order inside the token; else its result is \<^verbatim>\<open>L\<close>. The block
  renderer uses that result when it is not \<^verbatim>\<open>L\<close>, and the inherited alignment when it is,
  also when left was declared. The result of the resolver is always one of the four codes, and
  so is the alignment the renderer uses when the inherited one is.
\<close>

theorem resolver_order_and_range:
  "(find recognized (text_align_values (or_empty (attr_style at))) = Some v
      \<longrightarrow> extract_alignment at = align_code v)
   \<and> (find recognized (text_align_values (or_empty (attr_style at))) = None
        \<and> recognized (lower (or_empty (attr_align at)))
      \<longrightarrow> extract_alignment at = align_code (lower (or_empty (attr_align at))))
   \<and> (find recognized (text_align_values (or_empty (attr_style at))) = None
        \<and> \<not> recognized (lower (or_empty (attr_align at)))
        \<and> find names_alignment (map lower (case attr_class at of None \<Rightarrow> [] | Some cs \<Rightarrow> cs))
            = Some cls
      \<longrightarrow> extract_alignment at = class_code cls)
   \<and> (find recognized (text_align_values (or_empty (attr_style at))) = None
        \<and> \<not> recognized (lower (or_empty (attr_align at)))
        \<and> find names_alignment (map lower (case attr_class at of None \<Rightarrow> [] | Some cs \<Rightarrow> cs))
            = None
      \<longrightarrow> extract_alignment at = lit ''L'')
   \<and> (extract_alignment at \<noteq> lit ''L'' \<longrightarrow> node_align_of at a = extract_alignment at)
   \<and> (extract_alignment at = lit ''L'' \<longrightarrow> node_align_of at a = a)
   \<and> extract_alignment at \<in> {lit ''L'', lit ''C'', lit ''R'', lit ''J''}
   \<and> (a \<in> {lit ''L'', lit ''C'', lit ''R'', lit ''J''} \<longrightarrow>
        node_align_of at a \<in> {lit ''L'', lit ''C'', lit ''R'', lit ''J''})"
proof -
  have 1: "find recognized (text_align_values (or_empty (attr_style at))) = Some v
      \<longrightarrow> extract_alignment at = align_code v"
    by (simp add: extract_alignment_steps)
  have 2: "find recognized (text_align_values (or_empty (attr_style at))) = None
        \<and> recognized (lower (or_empty (attr_align at)))
      \<longrightarrow> extract_alignment at = align_code (lower (or_empty (attr_align at)))"
    by (simp add: extract_alignment_steps)
  have 3: "find recognized (text_align_values (or_empty (attr_style at))) = None
        \<and> \<not> recognized (lower (or_empty (attr_align at)))
        \<and> find names_alignment (map lower (case attr_class at of None \<Rightarrow> [] | Some cs \<Rightarrow> cs))
            = Some cls
      \<longrightarrow> extract_alignment at = class_code cls"
    by (simp add: extract_alignment_steps)
  have 4: "find recognized (text_align_values (or_empty (attr_style at))) = None
        \<and> \<not> recognized (lower (or_empty (attr_align at)))
        \<and> find names_alignment (map lower (case attr_class at of None \<Rightarrow> [] | Some cs \<Rightarrow> cs))
            = None
      \<longrightarrow> extract_alignment at = lit ''L''"
    by (simp add: extract_alignment_steps)
  have 5: "extract_alignment at \<noteq> lit ''L'' \<longrightarrow> node_align_of at a = extract_alignment at"
    by (simp add: node_align_of_def)
  have 6: "extract_alignment at = lit ''L'' \<longrightarrow> node_align_of at a = a"
    by (simp add: node_align_of_def)
  have 7: "extract_alignment at \<in> {lit ''L'', lit ''C'', lit ''R'', lit ''J''}"
    by (rule extract_alignment_range)
  have 8: "a \<in> {lit ''L'', lit ''C'', lit ''R'', lit ''J''} \<longrightarrow>
        node_align_of at a \<in> {lit ''L'', lit ''C'', lit ''R'', lit ''J''}"
    using 7 by (auto simp: node_align_of_def Let_def)
  show ?thesis
    using 1 2 3 4 5 6 7 8 by (intro conjI)
qed

lemmas resolver_defs = spec_resolve_def spec_style_values_def spec_class_code_def recognized_def
  align_code_def text_align_values_def names_alignment_def class_code_def

text \<open>
  Three inputs on which the program differs from the resolver as the specification words it:
  a class token with \<^verbatim>\<open>right\<close> before one with \<^verbatim>\<open>center\<close>; a declared left alignment under
  an inherited one (and the resolver alone, which never returns the inherited value); a
  declaration of another property whose name begins with \<^verbatim>\<open>text-align\<close>.
\<close>

theorem resolver_differs_from_claimed_order:
  "spec_resolve (no_attrs\<lparr>attr_class := Some [lit ''right'', lit ''center'']\<rparr>) (lit ''L'') = lit ''C''
   \<and> extract_alignment (no_attrs\<lparr>attr_class := Some [lit ''right'', lit ''center'']\<rparr>) = lit ''R''
   \<and> node_align_of (no_attrs\<lparr>attr_class := Some [lit ''right'', lit ''center'']\<rparr>) (lit ''L'') = lit ''R''
   \<and> spec_resolve (no_attrs\<lparr>attr_style := Some (lit ''text-align:left'')\<rparr>) (lit ''C'') = lit ''L''
   \<and> node_align_of (no_attrs\<lparr>attr_style := Some (lit ''text-align:left'')\<rparr>) (lit ''C'') = lit ''C''
   \<and> spec_resolve no_attrs (lit ''C'') = lit ''C''
   \<and> extract_alignment no_attrs = lit ''L''
   \<and> spec_resolve (no_attrs\<lparr>attr_style := Some (lit ''text-align-last:right'')\<rparr>) (lit ''L'') = lit ''L''
   \<and> extract_alignment (no_attrs\<lparr>attr_style := Some (lit ''text-align-last:right'')\<rparr>) = lit ''R''"
proof -
  have 1: "spec_resolve (no_attrs\<lparr>attr_class := Some [lit ''right'', lit ''center'']\<rparr>) (lit ''L'') = lit ''C''"
    by (simp add: resolver_defs eval_defs)
  have 2: "extract_alignment (no_attrs\<lparr>attr_class := Some [lit ''right'', lit ''center'']\<rparr>) = lit ''R''"
    by (simp add: eval_defs)
  have 3: "node_align_of (no_attrs\<lparr>attr_class := Some [lit ''right'', lit ''center'']\<rparr>) (lit ''L'') = lit ''R''"
    by (simp add: eval_defs)
  have 4: "spec_resolve (no_attrs\<lparr>attr_style := Some (lit ''text-align:left'')\<rparr>) (lit ''C'') = lit ''L''"
    by (simp add: resolver_defs eval_defs)
  have 5: "node_align_of (no_attrs\<lparr>attr_style := Some (lit ''text-align:left'')\<rparr>) (lit ''C'') = lit ''C''"
    by (simp add: eval_defs)
  have 6: "spec_resolve no_attrs (lit ''C'') = lit ''C''"
    by (simp add: resolver_defs eval_defs)
  have 7: "extract_alignment no_attrs = lit ''L''"
    by (simp add: eval_defs)
  have 8: "spec_resolve (no_attrs\<lparr>attr_style := Some (lit ''text-align-last:right'')\<rparr>) (lit ''L'') = lit ''L''"
    by (simp add: resolver_defs eval_defs)
  have 9: "extract_alignment (no_attrs\<lparr>attr_style := Some (lit ''text-align-last:right'')\<rparr>) = lit ''R''"
    by (simp add: eval_defs)
  show ?thesis
    using 1 2 3 4 5 6 7 8 9 by (intro conjI)
qed

theorem resolver_order_and_range_witness:
  "extract_alignment (no_attrs\<lparr>attr_style := Some (lit ''color:red; TEXT-ALIGN : Center''),
                                attr_align := Some (lit ''right'')\<rparr>) = lit ''C''
   \<and> extract_alignment (no_attrs\<lparr>attr_style := Some (lit ''text-align:middle''),
                                   attr_align := Some (lit ''Right''),
                                   attr_class := Some [lit ''center'']\<rparr>) = lit ''R''
   \<and> node_align_of (no_attrs\<lparr>attr_style := Some (lit ''text-align:middle''),
                               attr_align := Some (lit ''Right''),
                               attr_class := Some [lit ''center'']\<rparr>) (lit ''C'') = lit ''R''
   \<and> extract_alignment (no_attrs\<lparr>attr_class := Some [lit ''Right-col'', lit ''center'']\<rparr>) = lit ''R''
   \<and> extract_alignment no_attrs = lit ''L''
   \<and> node_align_of no_attrs (lit ''J'') = lit ''J''"
proof -
  let ?a1 = "no_attrs\<lparr>attr_style := Some (lit ''color:red; TEXT-ALIGN : Center''),
                                attr_align := Some (lit ''right'')\<rparr>"
  let ?a2 = "no_attrs\<lparr>attr_style := Some (lit ''text-align:middle''),
                                   attr_align := Some (lit ''Right''),
                                   attr_class := Some [lit ''center'']\<rparr>"
  let ?a3 = "no_attrs\<lparr>attr_class := Some [lit ''Right-col'', lit ''center'']\<rparr>"
  have s1: "find recognized (text_align_values (or_empty (attr_style ?a1))) = Some (lit ''center'')"
    by (simp add: resolver_defs eval_defs)
  have c1: "align_code (lit ''center'') = lit ''C''"
    by (simp add: align_code_def lit_def)
  have 1: "extract_alignment ?a1 = lit ''C''"
    using resolver_order_and_range[where at = "?a1" and v = "lit ''center''", THEN conjunct1] s1 c1
    by simp
  have s2: "find recognized (text_align_values (or_empty (attr_style ?a2))) = None"
    by (simp add: resolver_defs eval_defs)
  have l2: "lower (or_empty (attr_align ?a2)) = lit ''right''"
    by (simp add: eval_defs)
  have r2: "recognized (lit ''right'')"
    by (simp add: recognized_def)
  have c2: "align_code (lit ''right'') = lit ''R''"
    by (simp add: align_code_def lit_def)
  have 2: "extract_alignment ?a2 = lit ''R''"
    using resolver_order_and_range[where at = "?a2", THEN conjunct2, THEN conjunct1] s2 r2 c2
    unfolding l2 by simp
  have rl: "lit ''R'' \<noteq> lit ''L''"
    by (simp add: lit_def)
  have 3: "node_align_of ?a2 (lit ''C'') = lit ''R''"
    using resolver_order_and_range[where at = "?a2" and a = "lit ''C''",
        THEN conjunct2, THEN conjunct2, THEN conjunct2, THEN conjunct2, THEN conjunct1] rl
    unfolding 2 by simp
  have s3: "find recognized (text_align_values (or_empty (attr_style ?a3))) = None"
    by (simp add: resolver_defs eval_defs)
  have n3: "\<not> recognized (lower (or_empty (attr_align ?a3)))"
    by (simp add: resolver_defs eval_defs)
  have k3: "find names_alignment (map lower (case attr_class ?a3 of None \<Rightarrow> [] | Some cs \<Rightarrow> cs))
            = Some (lit ''right-col'')"
    by (simp add: resolver_defs eval_defs)
  have c3: "class_code (lit ''right-col'') = lit ''R''"
    by (simp add: class_code_def lit_def startswith_def)
  have 4: "extract_alignment ?a3 = lit ''R''"
    using resolver_order_and_range[where at = "?a3" and cls = "lit ''right-col''",
        THEN conjunct2, THEN conjunct2, THEN conjunct1] s3 n3 k3 c3
    by simp
  have s4: "find recognized (text_align_values (or_empty (attr_style no_attrs))) = None"
    by (simp add: resolver_defs eval_defs)
  have n4: "\<not> recognized (lower (or_empty (attr_align no_attrs)))"
    by (simp add: resolver_defs eval_defs)
  have k4: "find names_alignment (map lower (case attr_class no_attrs of None \<Rightarrow> [] | Some cs \<Rightarrow> cs))
            = None"
    by (simp add: resolver_defs eval_defs)
  have 5: "extract_alignment no_attrs = lit ''L''"
    using resolver_order_and_range[where at = no_attrs,
        THEN conjunct2, THEN conjunct2, THEN conjunct2, THEN conjunct1] s4 n4 k4
    by simp
  have 6: "node_align_of no_attrs (lit ''J'') = lit ''J''"
    using resolver_order_and_range[where at = no_attrs and a = "lit ''J''",
        THEN conjunct2, THEN conjunct2, THEN conjunct2, THEN conjunct2, THEN conjunct2,
        THEN conjunct1] 5
    by simp
  show ?thesis
    using 1 2 3 4 5 6 by (intro conjI)
qed

section \<open>The identifier check and the first request\<close>









section \<open>The nesting order of the inline wrappers\<close>

lemmas trigger_defs = style_of_def classes_of_def bold_by_style_def italic_by_style_def
  underline_by_style_def bold_by_class_def italic_by_class_def underline_by_class_def
  all_by_style_def all_by_class_def

lemma lit_a_facts:
  "lit ''a'' \<noteq> lit ''br''" "lit ''a'' \<noteq> lit ''hr''" "lit ''a'' \<noteq> lit ''img''"
  "lit ''a'' \<noteq> lit ''b''" "lit ''a'' \<noteq> lit ''strong''" "lit ''a'' \<noteq> lit ''i''"
  "lit ''a'' \<noteq> lit ''em''" "lit ''a'' \<noteq> lit ''u''" "lit ''a'' \<noteq> lit ''sup''"
  "lit ''a'' \<noteq> lit ''sub''" "lit ''a'' \<noteq> lit ''span''" "lit ''a'' \<noteq> lit ''font''"
  by (simp_all add: lit_def)

lemma sup_sub_facts:
  assumes "name = lit ''sup'' \<or> name = lit ''sub''"
  shows "name \<noteq> lit ''br''" "name \<noteq> lit ''hr''" "name \<noteq> lit ''a''"
  "name \<noteq> lit ''b''" "name \<noteq> lit ''strong''" "name \<noteq> lit ''i''"
  "name \<noteq> lit ''em''" "name \<noteq> lit ''u''" "name \<noteq> lit ''span''" "name \<noteq> lit ''font''"
  using assms by (auto simp: lit_def)

lemma face_wrapper_face:
  "attr_face at = Some f \<Longrightarrow> f \<noteq> [] \<Longrightarrow> face_wrapper name at inner = in_font_face f inner"
  by (simp add: face_wrapper_def py_or_def in_font_face_def)

lemma link_wrapper_href:
  "attr_href at = Some h \<Longrightarrow> h \<noteq> [] \<Longrightarrow> link_wrapper (lit ''a'') at inner = in_link h inner"
  by (simp add: link_wrapper_def in_link_def)

lemma link_wrapper_other: "name \<noteq> lit ''a'' \<Longrightarrow> link_wrapper name at inner = inner"
  by (simp add: link_wrapper_def)

lemma color_wrapper_other: "name \<noteq> lit ''font'' \<Longrightarrow> color_wrapper name at inner = inner"
  by (simp add: color_wrapper_def)

lemma style_wrappers_all:
  "bold_by_style at \<Longrightarrow> italic_by_style at \<Longrightarrow> underline_by_style at \<Longrightarrow>
   style_wrappers (style_of at) inner = in_tag (lit ''u'') (in_tag (lit ''i'') (in_tag (lit ''b'') inner))"
  by (simp add: style_wrappers_def wrap_if_def apply_wrapper_def in_tag_def
      bold_by_style_def italic_by_style_def underline_by_style_def)

lemma style_wrappers_none:
  "\<not> bold_by_style at \<Longrightarrow> \<not> italic_by_style at \<Longrightarrow> \<not> underline_by_style at \<Longrightarrow>
   style_wrappers (style_of at) inner = inner"
  by (auto simp: style_wrappers_def wrap_if_def
      bold_by_style_def italic_by_style_def underline_by_style_def)

lemma class_wrappers_all:
  "bold_by_class at \<Longrightarrow> italic_by_class at \<Longrightarrow> underline_by_class at \<Longrightarrow>
   class_wrappers (classes_of at) inner = in_tag (lit ''u'') (in_tag (lit ''i'') (in_tag (lit ''b'') inner))"
  by (simp add: class_wrappers_def wrap_if_def apply_wrapper_def in_tag_def
      bold_by_class_def italic_by_class_def underline_by_class_def)

lemma class_wrappers_none:
  "\<not> bold_by_class at \<Longrightarrow> \<not> italic_by_class at \<Longrightarrow> \<not> underline_by_class at \<Longrightarrow>
   class_wrappers (classes_of at) inner = inner"
  by (auto simp: class_wrappers_def wrap_if_def
      bold_by_class_def italic_by_class_def underline_by_class_def)

lemma name_wrappers_a: "name_wrappers (lit ''a'') inner = inner"
  by (simp add: name_wrappers_def wrap_if_def lit_a_facts)

lemma name_wrappers_sup_sub:
  "name = lit ''sup'' \<or> name = lit ''sub'' \<Longrightarrow> name_wrappers name inner = in_tag name inner"
  by (simp add: name_wrappers_def wrap_if_def apply_wrapper_def in_tag_def sup_sub_facts)

lemma format_wrappers_passes:
  "format_wrappers name at inner =
     color_wrapper name at (face_wrapper name at (link_wrapper name at
       (class_wrappers (classes_of at) (style_wrappers (style_of at) (name_wrappers name inner)))))"
  by (simp add: format_wrappers_def Let_def style_of_def classes_of_def)

lemma render_node_tag:
  assumes "lower nm = name" and "name \<noteq> lit ''br''" and "name \<noteq> lit ''hr''"
    and "render_inline_children children \<noteq> []"
  shows "render_node (Tag nm at children) = format_wrappers name at (render_inline_children children)"
  using assms by (auto simp: render_inline_children_def Let_def)

lemma link_nesting:
  assumes "lower nm = lit ''a''" and "attr_href at = Some h" and "h \<noteq> []"
    and "attr_face at = Some f" and "f \<noteq> []" and "render_inline_children children \<noteq> []"
    and "all_by_style at \<or> all_by_class at"
  shows "render_node (Tag nm at children) =
         in_font_face f (in_link h (in_tag (lit ''u'') (in_tag (lit ''i'') (in_tag (lit ''b'')
           (render_inline_children children)))))"
proof -
  have "class_wrappers (classes_of at) (style_wrappers (style_of at) (render_inline_children children))
        = in_tag (lit ''u'') (in_tag (lit ''i'') (in_tag (lit ''b'') (render_inline_children children)))"
    using assms(7)
    by (auto simp: all_by_style_def all_by_class_def style_wrappers_all style_wrappers_none
        class_wrappers_all class_wrappers_none)
  then show ?thesis
    using assms(2-5)
    by (simp del: render_node.simps add: render_node_tag[OF assms(1) lit_a_facts(1,2) assms(6)] format_wrappers_passes
        name_wrappers_a link_wrapper_href face_wrapper_face color_wrapper_other lit_a_facts)
qed

lemma sup_sub_nesting:
  assumes "lower nm = name" and "name = lit ''sup'' \<or> name = lit ''sub''"
    and "attr_face at = Some f" and "f \<noteq> []" and "render_inline_children children \<noteq> []"
    and "all_by_style at \<or> all_by_class at"
  shows "render_node (Tag nm at children) =
         in_font_face f (in_tag (lit ''u'') (in_tag (lit ''i'') (in_tag (lit ''b'')
           (in_tag name (render_inline_children children)))))"
proof -
  have "class_wrappers (classes_of at) (style_wrappers (style_of at) (in_tag name (render_inline_children children)))
        = in_tag (lit ''u'') (in_tag (lit ''i'') (in_tag (lit ''b'') (in_tag name (render_inline_children children))))"
    using assms(6)
    by (auto simp: all_by_style_def all_by_class_def style_wrappers_all style_wrappers_none
        class_wrappers_all class_wrappers_none)
  then show ?thesis
    using assms(3,4)
    by (simp del: render_node.simps add: render_node_tag[OF assms(1) sup_sub_facts(1,2)[OF assms(2)] assms(5)]
        format_wrappers_passes name_wrappers_sup_sub[OF assms(2)] link_wrapper_other
        face_wrapper_face color_wrapper_other sup_sub_facts[OF assms(2)])
qed

lemma wrap_if_in_tag: "wrap_if cond t x = (if cond then in_tag t x else x)"
  by (simp add: wrap_if_def apply_wrapper_def in_tag_def)

lemma name_wrappers_order:
  "name_wrappers name x =
     wrap_in_order [(name = lit ''b'' \<or> name = lit ''strong'', in_tag (lit ''b'')),
                    (name = lit ''i'' \<or> name = lit ''em'', in_tag (lit ''i'')),
                    (name = lit ''u'', in_tag (lit ''u'')),
                    (name = lit ''sup'' \<or> name = lit ''sub'', in_tag name)] x"
  unfolding name_wrappers_def Let_def wrap_if_in_tag wrap_in_order.simps insert_iff empty_iff
  by simp

lemma style_wrappers_order:
  "style_wrappers (style_of at) x =
     wrap_in_order [(bold_by_style at, in_tag (lit ''b'')),
                    (italic_by_style at, in_tag (lit ''i'')),
                    (underline_by_style at, in_tag (lit ''u''))] x"
  unfolding style_wrappers_def Let_def wrap_if_in_tag wrap_in_order.simps
    bold_by_style_def italic_by_style_def underline_by_style_def
  by (rule refl)

lemma class_wrappers_order:
  "class_wrappers (classes_of at) x =
     wrap_in_order [(bold_by_class at, in_tag (lit ''b'')),
                    (italic_by_class at, in_tag (lit ''i'')),
                    (underline_by_class at, in_tag (lit ''u''))] x"
  unfolding class_wrappers_def Let_def wrap_if_in_tag wrap_in_order.simps
    bold_by_class_def italic_by_class_def underline_by_class_def
  by (rule refl)

lemma link_wrapper_order:
  "link_wrapper name at x =
     wrap_in_order [(name = lit ''a'' \<and> truthy (attr_href at), in_link (or_empty (attr_href at)))] x"
  by (simp add: link_wrapper_def in_link_def)

lemma face_wrapper_order:
  "face_wrapper name at x =
     wrap_in_order [(truthy (font_face_of at), in_font_face (or_empty (font_face_of at)))] x"
  by (simp add: face_wrapper_def py_or_def font_face_of_def in_font_face_def Let_def)

lemma color_wrapper_order:
  "color_wrapper name at x =
     wrap_in_order [(name = lit ''font'' \<and> truthy (attr_color at),
                     in_font_color (or_empty (attr_color at)))] x"
  by (simp add: color_wrapper_def in_font_color_def)

lemma wrap_in_order_append:
  "wrap_in_order (ws @ vs) x = wrap_in_order vs (wrap_in_order ws x)"
  by (induction ws x rule: wrap_in_order.induct) simp_all

lemma format_wrappers_order:
  "format_wrappers name at x = wrap_in_order (wrapper_passes name at) x"
proof -
  have "wrapper_passes name at =
      [(name = lit ''b'' \<or> name = lit ''strong'', in_tag (lit ''b'')),
       (name = lit ''i'' \<or> name = lit ''em'', in_tag (lit ''i'')),
       (name = lit ''u'', in_tag (lit ''u'')),
       (name = lit ''sup'' \<or> name = lit ''sub'', in_tag name)]
      @ [(bold_by_style at, in_tag (lit ''b'')),
         (italic_by_style at, in_tag (lit ''i'')),
         (underline_by_style at, in_tag (lit ''u''))]
      @ [(bold_by_class at, in_tag (lit ''b'')),
         (italic_by_class at, in_tag (lit ''i'')),
         (underline_by_class at, in_tag (lit ''u''))]
      @ [(name = lit ''a'' \<and> truthy (attr_href at), in_link (or_empty (attr_href at)))]
      @ [(truthy (font_face_of at), in_font_face (or_empty (font_face_of at)))]
      @ [(name = lit ''font'' \<and> truthy (attr_color at), in_font_color (or_empty (attr_color at)))]"
    unfolding wrapper_passes_def by simp
  then show ?thesis
    unfolding format_wrappers_passes
    by (simp only: wrap_in_order_append name_wrappers_order style_wrappers_order
        class_wrappers_order link_wrapper_order face_wrapper_order color_wrapper_order)
qed

lemma render_node_in_order:
  assumes "lower nm \<noteq> lit ''br''" and "lower nm \<noteq> lit ''hr''"
    and "render_inline_children children \<noteq> [] \<or> lower nm = lit ''img''"
  shows "render_node (Tag nm at children)
         = wrap_in_order (wrapper_passes (lower nm) at) (render_inline_children children)"
  using assms by (auto simp: render_inline_children_def Let_def format_wrappers_order)

text \<open>
  Claim C3, as the program behaves. The wrappers are put on in the order of the statements of
  \<^verbatim>\<open>_render_node\<close>, each around the result of the one before: those triggered by the tag
  name (bold, italic, underline, sup/sub), then those triggered by the inline style (bold,
  italic, underline), then those triggered by a class (bold, italic, underline), then the
  link, then the font face, then the font colour, which is outermost. So when bold, italic and
  underline are all triggered by the inline style alone, or all by classes alone, a link with
  a font face nests bold innermost, then italic, then underline, then the link, with the font
  face outermost; and on a sup/sub element, which is never a link, the sup/sub wrapper is
  innermost, inside bold, italic and underline, with the font face outermost.
\<close>

theorem wrappers_nest_in_pass_order:
  "(lower nm \<noteq> lit ''br'' \<and> lower nm \<noteq> lit ''hr''
      \<and> (render_inline_children children \<noteq> [] \<or> lower nm = lit ''img'')
    \<longrightarrow> render_node (Tag nm at children)
        = wrap_in_order (wrapper_passes (lower nm) at) (render_inline_children children))
   \<and> (lower nm = lit ''a'' \<and> attr_href at = Some h \<and> h \<noteq> [] \<and> attr_face at = Some f \<and> f \<noteq> []
      \<and> render_inline_children children \<noteq> [] \<and> (all_by_style at \<or> all_by_class at)
    \<longrightarrow> render_node (Tag nm at children) =
         in_font_face f (in_link h (in_tag (lit ''u'') (in_tag (lit ''i'') (in_tag (lit ''b'')
           (render_inline_children children))))))
   \<and> ((lower nm = lit ''sup'' \<or> lower nm = lit ''sub'') \<and> attr_face at = Some f \<and> f \<noteq> []
      \<and> render_inline_children children \<noteq> [] \<and> (all_by_style at \<or> all_by_class at)
    \<longrightarrow> render_node (Tag nm at children) =
         in_font_face f (in_tag (lit ''u'') (in_tag (lit ''i'') (in_tag (lit ''b'')
           (in_tag (lower nm) (render_inline_children children))))))"
  using render_node_in_order link_nesting sup_sub_nesting by blast

theorem wrappers_nest_in_pass_order_witness:
  "render_node (Tag (lit ''A'')
      (no_attrs\<lparr>attr_style := Some (lit ''font-weight:bold;font-style:italic;text-decoration:underline''),
                attr_href := Some (lit ''h''), attr_face := Some (lit ''F'')\<rparr>)
      [NavigableString (lit ''x'')])
   = lit ''<font face=\"F\"><a href=\"h\"><u><i><b>x</b></i></u></a></font>''
   \<and> render_node (Tag (lit ''sup'')
      (no_attrs\<lparr>attr_class := Some [lit ''bold'', lit ''italic'', lit ''underline''],
                attr_face := Some (lit ''F'')\<rparr>)
      [NavigableString (lit ''x'')])
   = lit ''<font face=\"F\"><u><i><b><sup>x</sup></b></i></u></font>''
   \<and> render_node (Tag (lit ''font'')
      (no_attrs\<lparr>attr_style := Some (lit ''font-weight:bold''), attr_class := Some [lit ''underline''],
                attr_face := Some (lit ''F''), attr_color := Some (lit ''red'')\<rparr>)
      [NavigableString (lit ''x'')])
   = lit ''<font color=\"red\"><font face=\"F\"><u><b>x</b></u></font></font>''
   \<and> render_node (Tag (lit ''em'')
      (no_attrs\<lparr>attr_style := Some (lit ''font-weight:bold''), attr_class := Some [lit ''underline'']\<rparr>)
      [NavigableString (lit ''x'')])
   = lit ''<u><b><i>x</i></b></u>''"
proof -
  let ?a = "no_attrs\<lparr>attr_style := Some (lit ''font-weight:bold;font-style:italic;text-decoration:underline''),
                attr_href := Some (lit ''h''), attr_face := Some (lit ''F'')\<rparr>"
  let ?b = "no_attrs\<lparr>attr_class := Some [lit ''bold'', lit ''italic'', lit ''underline''],
                attr_face := Some (lit ''F'')\<rparr>"
  let ?c = "no_attrs\<lparr>attr_style := Some (lit ''font-weight:bold''), attr_class := Some [lit ''underline''],
                attr_face := Some (lit ''F''), attr_color := Some (lit ''red'')\<rparr>"
  let ?d = "no_attrs\<lparr>attr_style := Some (lit ''font-weight:bold''), attr_class := Some [lit ''underline'']\<rparr>"
  have n: "lower (lit ''A'') = lit ''a''" "lower (lit ''sup'') = lit ''sup''"
    "lower (lit ''font'') = lit ''font''" "lower (lit ''em'') = lit ''em''"
    by (simp_all add: lit_def lower_def lower_char_def)
  have f: "lit ''h'' \<noteq> []" "lit ''F'' \<noteq> []"
    by (simp_all add: lit_def)
  have c: "render_inline_children [NavigableString (lit ''x'')] = lit ''x''"
    by (simp add: eval_defs)
  have x: "lit ''x'' \<noteq> []"
    by (simp add: lit_def)
  have s: "all_by_style ?a"
    by (simp add: trigger_defs no_attrs_def lit_def lower_def lower_char_def startswith_def)
  have k: "all_by_class ?b"
    by (simp add: trigger_defs no_attrs_def lit_def lower_def lower_char_def startswith_def)
  have 1: "render_node (Tag (lit ''A'') ?a [NavigableString (lit ''x'')])
           = in_font_face (lit ''F'') (in_link (lit ''h'') (in_tag (lit ''u'') (in_tag (lit ''i'')
               (in_tag (lit ''b'') (lit ''x'')))))"
    using wrappers_nest_in_pass_order
      [where nm = "lit ''A''" and at = "?a" and h = "lit ''h''" and f = "lit ''F''"
         and children = "[NavigableString (lit ''x'')]", THEN conjunct2, THEN conjunct1] n f s x
    unfolding c by (simp add: no_attrs_def)
  have 2: "render_node (Tag (lit ''sup'') ?b [NavigableString (lit ''x'')])
           = in_font_face (lit ''F'') (in_tag (lit ''u'') (in_tag (lit ''i'')
               (in_tag (lit ''b'') (in_tag (lit ''sup'') (lit ''x'')))))"
    using wrappers_nest_in_pass_order
      [where nm = "lit ''sup''" and at = "?b" and f = "lit ''F''"
         and children = "[NavigableString (lit ''x'')]", THEN conjunct2, THEN conjunct2] n f k x
    unfolding c by (simp add: no_attrs_def)
  have 3: "in_font_face (lit ''F'') (in_link (lit ''h'') (in_tag (lit ''u'') (in_tag (lit ''i'')
               (in_tag (lit ''b'') (lit ''x'')))))
           = lit ''<font face=\"F\"><a href=\"h\"><u><i><b>x</b></i></u></a></font>''"
    by (simp add: in_font_face_def in_link_def in_tag_def html_escape_def replace_char_def lit_def)
  have 4: "in_font_face (lit ''F'') (in_tag (lit ''u'') (in_tag (lit ''i'')
               (in_tag (lit ''b'') (in_tag (lit ''sup'') (lit ''x'')))))
           = lit ''<font face=\"F\"><u><i><b><sup>x</sup></b></i></u></font>''"
    by (simp add: in_font_face_def in_tag_def html_escape_def replace_char_def lit_def)
  have g: "lit ''font'' \<noteq> lit ''br''" "lit ''font'' \<noteq> lit ''hr''"
    "lit ''em'' \<noteq> lit ''br''" "lit ''em'' \<noteq> lit ''hr''"
    by (simp_all add: lit_def)
  have 5: "render_node (Tag (lit ''font'') ?c [NavigableString (lit ''x'')])
           = wrap_in_order (wrapper_passes (lit ''font'') ?c) (lit ''x'')"
    using wrappers_nest_in_pass_order
      [where nm = "lit ''font''" and at = "?c" and children = "[NavigableString (lit ''x'')]",
       THEN conjunct1] g x
    unfolding c n by blast
  have 6: "wrap_in_order (wrapper_passes (lit ''font'') ?c) (lit ''x'')
           = lit ''<font color=\"red\"><font face=\"F\"><u><b>x</b></u></font></font>''"
    by (simp add: wrapper_passes_def trigger_defs font_face_of_def in_font_color_def
        in_font_face_def in_link_def in_tag_def html_escape_def replace_char_def
        no_attrs_def lit_def lower_def lower_char_def startswith_def)
  have 7: "render_node (Tag (lit ''em'') ?d [NavigableString (lit ''x'')])
           = wrap_in_order (wrapper_passes (lit ''em'') ?d) (lit ''x'')"
    using wrappers_nest_in_pass_order
      [where nm = "lit ''em''" and at = "?d" and children = "[NavigableString (lit ''x'')]",
       THEN conjunct1] g x
    unfolding c n by blast
  have 8: "wrap_in_order (wrapper_passes (lit ''em'') ?d) (lit ''x'')
           = lit ''<u><b><i>x</i></b></u>''"
    by (simp add: wrapper_passes_def trigger_defs font_face_of_def in_font_color_def
        in_font_face_def in_link_def in_tag_def html_escape_def replace_char_def
        no_attrs_def lit_def lower_def lower_char_def startswith_def)
  show ?thesis
    using 1 2 5 7 unfolding 3 4 6 8 by (intro conjI)
qed

text \<open>
  When underline comes from the inline style and bold and italic from classes, underline is
  innermost; and a sup element made bold by its style has the sup wrapper inside the bold one.
\<close>

theorem underline_inside_bold_and_italic:
  "render_node (Tag (lit ''a'')
      (no_attrs\<lparr>attr_style := Some (lit ''text-decoration:underline''),
                attr_class := Some [lit ''bold'', lit ''italic''],
                attr_href := Some (lit ''h''), attr_face := Some (lit ''F'')\<rparr>)
      [NavigableString (lit ''x'')])
   = lit ''<font face=\"F\"><a href=\"h\"><i><b><u>x</u></b></i></a></font>''
   \<and> render_node (Tag (lit ''a'')
      (no_attrs\<lparr>attr_style := Some (lit ''text-decoration:underline''),
                attr_class := Some [lit ''bold'', lit ''italic''],
                attr_href := Some (lit ''h''), attr_face := Some (lit ''F'')\<rparr>)
      [NavigableString (lit ''x'')])
   \<noteq> lit ''<font face=\"F\"><a href=\"h\"><u><i><b>x</b></i></u></a></font>''
   \<and> render_node (Tag (lit ''sup'')
      (no_attrs\<lparr>attr_style := Some (lit ''font-weight:bold'')\<rparr>) [NavigableString (lit ''x'')])
   = lit ''<b><sup>x</sup></b>''"
proof -
  have 1: "render_node (Tag (lit ''a'')
      (no_attrs\<lparr>attr_style := Some (lit ''text-decoration:underline''),
                attr_class := Some [lit ''bold'', lit ''italic''],
                attr_href := Some (lit ''h''), attr_face := Some (lit ''F'')\<rparr>)
      [NavigableString (lit ''x'')])
   = lit ''<font face=\"F\"><a href=\"h\"><i><b><u>x</u></b></i></a></font>''"
    by (simp add: eval_defs)
  have 2: "lit ''<font face=\"F\"><a href=\"h\"><i><b><u>x</u></b></i></a></font>''
           \<noteq> lit ''<font face=\"F\"><a href=\"h\"><u><i><b>x</b></i></u></a></font>''"
    by (simp add: lit_def)
  have 3: "render_node (Tag (lit ''sup'')
      (no_attrs\<lparr>attr_style := Some (lit ''font-weight:bold'')\<rparr>) [NavigableString (lit ''x'')])
   = lit ''<b><sup>x</sup></b>''"
    by (simp add: eval_defs)
  show ?thesis
    using 2 unfolding 1 3 by simp
qed

section \<open>Nodes that give no block\<close>

lemma wrap_if_blank:
  "\<forall>c\<in>set (wrap_if cond t x). isspace c \<Longrightarrow> wrap_if cond t x = x"
  by (auto simp: wrap_if_def apply_wrapper_def lit_def isspace_def)

lemma name_wrappers_blank:
  "\<forall>c\<in>set (name_wrappers name x). isspace c \<Longrightarrow> name_wrappers name x = x"
  unfolding name_wrappers_def Let_def by (metis wrap_if_blank)

lemma style_wrappers_blank:
  "\<forall>c\<in>set (style_wrappers st x). isspace c \<Longrightarrow> style_wrappers st x = x"
  unfolding style_wrappers_def Let_def by (metis wrap_if_blank)

lemma class_wrappers_blank:
  "\<forall>c\<in>set (class_wrappers cs x). isspace c \<Longrightarrow> class_wrappers cs x = x"
  unfolding class_wrappers_def Let_def by (metis wrap_if_blank)

lemma link_wrapper_blank:
  "\<forall>c\<in>set (link_wrapper name at x). isspace c \<Longrightarrow> link_wrapper name at x = x"
  by (auto simp: link_wrapper_def lit_def isspace_def split: if_splits)

lemma face_wrapper_blank:
  "\<forall>c\<in>set (face_wrapper name at x). isspace c \<Longrightarrow> face_wrapper name at x = x"
  by (auto simp: face_wrapper_def Let_def lit_def isspace_def split: if_splits)

lemma color_wrapper_blank:
  "\<forall>c\<in>set (color_wrapper name at x). isspace c \<Longrightarrow> color_wrapper name at x = x"
  by (auto simp: color_wrapper_def lit_def isspace_def split: if_splits)

lemma format_wrappers_blank:
  "\<forall>c\<in>set (format_wrappers name at x). isspace c \<Longrightarrow> format_wrappers name at x = x"
  unfolding format_wrappers_def Let_def
  by (metis name_wrappers_blank style_wrappers_blank class_wrappers_blank link_wrapper_blank
      face_wrapper_blank color_wrapper_blank)

lemma render_node_blank_tag:
  assumes "\<forall>c\<in>set (render_node (Tag nm at children)). isspace c"
  shows "lower nm \<noteq> lit ''br''" and "lower nm \<noteq> lit ''hr''"
    and "\<forall>c\<in>set (render_inline_children children). isspace c"
proof -
  show 1: "lower nm \<noteq> lit ''br''"
    using assms by (auto simp: Let_def lit_def isspace_def)
  show 2: "lower nm \<noteq> lit ''hr''"
    using assms by (auto simp: Let_def lit_def isspace_def split: if_splits)
  show "\<forall>c\<in>set (render_inline_children children). isspace c"
  proof (cases "render_inline_children children = []")
    case True
    then show ?thesis by simp
  next
    case False
    then have "render_node (Tag nm at children)
               = format_wrappers (lower nm) at (render_inline_children children)"
      using 1 2 by (auto simp: render_inline_children_def Let_def)
    then show ?thesis
      using assms format_wrappers_blank by metis
  qed
qed

lemma list_items_blank:
  "\<forall>n\<in>set children. \<forall>c\<in>set (render_node n). isspace c \<Longrightarrow> list_items children = []"
proof (induction children rule: list_items.induct)
  case 1
  then show ?case by simp
next
  case (2 nm at children rest)
  have "\<forall>c\<in>set (render_inline_children children). isspace c"
    using 2(4) render_node_blank_tag(3)[of nm at children] by simp
  then have "strip (render_inline_children children) = []"
    by (simp add: strip_empty_iff)
  then show ?case
    using 2 by (simp add: Let_def)
next
  case (3 t rest)
  then show ?case by simp
next
  case (4 rest)
  then show ?case by simp
qed

lemma element_blocks_blank:
  assumes "name \<noteq> lit ''hr''" and "strip (render_inline_children children) = []"
    and "list_items children = []"
  shows "element_blocks name align_attr children = []"
  using assms by (simp add: element_blocks_def Let_def)

lemma blank_children:
  assumes "\<forall>c\<in>set (render_inline_children children). isspace c"
  shows "\<forall>n\<in>set children. \<forall>c\<in>set (render_node n). isspace c"
  using assms by (auto simp: render_inline_children_def)

lemma blank_gives_no_block:
  "\<forall>c\<in>set (render_node n). isspace c \<Longrightarrow> render_blocks_from_node n a = []"
proof (induction n arbitrary: a)
  case (NavigableString t)
  then have "strip (render_node (NavigableString t)) = []"
    by (simp only: strip_empty_iff)
  then show ?case
    by (simp del: render_node.simps)
next
  case Other
  then show ?case by simp
next
  case (Tag nm at children)
  have b: "\<forall>c\<in>set (render_inline_children children). isspace c"
    and hr: "lower nm \<noteq> lit ''hr''"
    using render_node_blank_tag[OF Tag.prems] by blast+
  have ch: "\<forall>n\<in>set children. \<forall>c\<in>set (render_node n). isspace c"
    using blank_children[OF b] .
  have "\<forall>n\<in>set children. render_blocks_from_node n (node_align_of at a) = []"
    using Tag.IH ch by blast
  then have cb: "concat (map (\<lambda>child. render_blocks_from_node child (node_align_of at a)) children) = []"
    by simp
  have eb: "element_blocks (lower nm) (align_attr_of (node_align_of at a)) children = []"
    using element_blocks_blank[OF hr _ list_items_blank[OF ch]] b
    by (simp add: strip_empty_iff)
  show ?case
    using cb eb by (simp add: Let_def)
qed

lemma bare_renders_empty: "bare n \<Longrightarrow> render_node n = []"
proof (induction n)
  case (NavigableString t)
  then show ?case by simp
next
  case Other
  then show ?case by simp
next
  case (Tag nm at children)
  then have "\<forall>n\<in>set children. render_node n = []"
    by (simp add: list_all_iff)
  then have "concat (map render_node children) = []"
    by simp
  then show ?case
    using Tag.prems by (simp add: Let_def)
qed

text \<open>
  Claim C2, as the program behaves. A node whose inline rendering is empty or consists of
  whitespace only gives no block, whatever the inherited alignment. This holds in particular
  for every node under which every text node is empty and no tag is a \<^verbatim>\<open>br\<close>, an \<^verbatim>\<open>hr\<close> or
  an \<^verbatim>\<open>img\<close>: its inline rendering is empty.
\<close>

theorem blank_inline_rendering_gives_no_block:
  "(strip (render_node n) = [] \<longrightarrow> render_blocks_from_node n a = [])
   \<and> (bare n \<longrightarrow> render_node n = [] \<and> render_blocks_from_node n a = [])"
proof -
  have 1: "strip (render_node n) = [] \<longrightarrow> render_blocks_from_node n a = []"
    using blank_gives_no_block by (simp add: strip_empty_iff)
  have 2: "bare n \<longrightarrow> render_node n = [] \<and> render_blocks_from_node n a = []"
    using bare_renders_empty[of n] blank_gives_no_block[of n a] by auto
  show ?thesis using 1 2 by (rule conjI)
qed

theorem blank_inline_rendering_gives_no_block_witness:
  "strip (render_node (Tag (lit ''div'') no_attrs
       [Tag (lit ''p'') no_attrs [NavigableString (lit '' '')], Tag (lit ''span'') no_attrs []])) = []
   \<and> render_blocks_from_node (Tag (lit ''div'') no_attrs
       [Tag (lit ''p'') no_attrs [NavigableString (lit '' '')], Tag (lit ''span'') no_attrs []])
       (lit ''C'') = []
   \<and> bare (Tag (lit ''div'') no_attrs [Tag (lit ''p'') no_attrs [NavigableString []]])
   \<and> render_blocks_from_node (Tag (lit ''div'') no_attrs [Tag (lit ''p'') no_attrs [NavigableString []]])
       (lit ''C'') = []"
proof -
  let ?n = "Tag (lit ''div'') no_attrs
       [Tag (lit ''p'') no_attrs [NavigableString (lit '' '')], Tag (lit ''span'') no_attrs []]"
  let ?m = "Tag (lit ''div'') no_attrs [Tag (lit ''p'') no_attrs [NavigableString []]]"
  have 1: "strip (render_node ?n) = []"
    by (simp add: eval_defs)
  have 2: "bare ?m"
    by (simp add: lit_def lower_def lower_char_def)
  have 3: "render_blocks_from_node ?n (lit ''C'') = []"
    using blank_inline_rendering_gives_no_block[where n = "?n" and a = "lit ''C''", THEN conjunct1] 1
    by blast
  have 4: "render_blocks_from_node ?m (lit ''C'') = []"
    using blank_inline_rendering_gives_no_block[where n = "?m" and a = "lit ''C''", THEN conjunct2] 2
    by blast
  show ?thesis
    using 1 2 3 4 by blast
qed

text \<open>
  A rule without text gives the block \<^verbatim>\<open><hr/>\<close>, and a paragraph whose only text is a space
  inside a bold element gives a block: neither node has a text node that is not whitespace.
\<close>

theorem blocks_without_renderable_text:
  "no_renderable_text (Tag (lit ''hr'') no_attrs [])
   \<and> render_blocks_from_node (Tag (lit ''hr'') no_attrs []) (lit ''L'') = [lit ''<hr/>'']
   \<and> no_renderable_text (Tag (lit ''p'') no_attrs [Tag (lit ''b'') no_attrs [NavigableString (lit '' '')]])
   \<and> render_blocks_from_node
         (Tag (lit ''p'') no_attrs [Tag (lit ''b'') no_attrs [NavigableString (lit '' '')]]) (lit ''L'')
       = [lit ''<p><b> </b></p>'']"
proof -
  have 1: "no_renderable_text (Tag (lit ''hr'') no_attrs [])"
    by simp
  have 2: "render_blocks_from_node (Tag (lit ''hr'') no_attrs []) (lit ''L'') = [lit ''<hr/>'']"
    by (simp add: eval_defs)
  have 3: "no_renderable_text (Tag (lit ''p'') no_attrs [Tag (lit ''b'') no_attrs [NavigableString (lit '' '')]])"
    by (simp add: lit_def isspace_def)
  have 4: "render_blocks_from_node
         (Tag (lit ''p'') no_attrs [Tag (lit ''b'') no_attrs [NavigableString (lit '' '')]]) (lit ''L'')
       = [lit ''<p><b> </b></p>'']"
    by (simp add: eval_defs)
  show ?thesis
    using 1 2 3 4 by blast
qed

section \<open>The rendering of a text leaf\<close>

lemma html_escape_per_char:
  "html_escape (replace_char 160 (lit '' '') t) False = concat (map spec_text_char t)"
proof (induction t)
  case Nil
  then show ?case by (simp add: html_escape_def replace_char_def)
next
  case (Cons c t)
  have "html_escape (replace_char 160 (lit '' '') (c # t)) False
        = html_escape (replace_char 160 (lit '' '') [c]) False
          @ html_escape (replace_char 160 (lit '' '') t) False"
    by (simp add: html_escape_def replace_char_def)
  moreover have "html_escape (replace_char 160 (lit '' '') [c]) False = spec_text_char c"
    by (simp add: html_escape_def replace_char_def spec_text_char_def lit_def)
  ultimately show ?case using Cons by simp
qed

lemma render_node_text:
  "render_node (NavigableString t) = wrap_yi_sequences (concat (map spec_text_char t))"
  by (cases "t = []") (simp_all add: html_escape_per_char)

lemma wrap_no_yi: "\<forall>c\<in>set s. \<not> is_yi c \<Longrightarrow> wrap_yi_sequences (s @ r) = s @ wrap_yi_sequences r"
  by (induction s) simp_all

lemma wrap_no_yi_id: "\<forall>c\<in>set s. \<not> is_yi c \<Longrightarrow> wrap_yi_sequences s = s"
  using wrap_no_yi[of s "[]"] by simp

lemma wrap_run:
  assumes "y \<noteq> []" and "\<forall>c\<in>set y. is_yi c" and "r = [] \<or> \<not> is_yi (hd r)"
  shows "wrap_yi_sequences (y @ r) = yi_open @ y @ yi_close @ wrap_yi_sequences r"
proof -
  obtain c ys where y: "y = c # ys" using assms(1) by (cases y) auto
  have t: "takeWhile is_yi (ys @ r) = ys"
    using assms(2,3) y by (cases r) (auto simp: takeWhile_append2 takeWhile_eq_all_conv)
  have d: "dropWhile is_yi (ys @ r) = r"
    using assms(2,3) y by (cases r) (auto simp: dropWhile_append2 dropWhile_eq_Nil_conv)
  show ?thesis
    using assms(2) y t d by simp
qed

lemma wrap_append:
  "p = [] \<or> \<not> is_yi (last p) \<Longrightarrow> wrap_yi_sequences (p @ s) = wrap_yi_sequences p @ wrap_yi_sequences s"
proof (induction p rule: wrap_yi_sequences.induct)
  case 1
  then show ?case by simp
next
  case (2 c cs)
  show ?case
  proof (cases "is_yi c")
    case False
    then have "cs = [] \<or> \<not> is_yi (last cs)"
      using 2(3) by (auto split: if_splits)
    then show ?thesis
      using False 2(2) by simp
  next
    case True
    then have ne: "cs \<noteq> []" and l: "\<not> is_yi (last cs)"
      using 2(3) by (auto split: if_splits)
    then have ex: "last cs \<in> set cs" by simp
    have t: "takeWhile is_yi (cs @ s) = takeWhile is_yi cs"
      using ex l by (rule takeWhile_append1)
    have d: "dropWhile is_yi (cs @ s) = dropWhile is_yi cs @ s"
      using ex l by (rule dropWhile_append1)
    have dne: "dropWhile is_yi cs \<noteq> []"
      using ex l by (auto simp: dropWhile_eq_Nil_conv)
    have "last (dropWhile is_yi cs) = last cs"
      using dne by (metis last_appendR takeWhile_dropWhile_id)
    then have "wrap_yi_sequences (dropWhile is_yi cs @ s)
               = wrap_yi_sequences (dropWhile is_yi cs) @ wrap_yi_sequences s"
      using 2(1)[OF True] l by simp
    then show ?thesis
      using True t d by simp
  qed
qed

lemma wrap_maximal_run:
  assumes "p = [] \<or> \<not> is_yi (last p)" and "y \<noteq> []" and "\<forall>c\<in>set y. is_yi c"
    and "r = [] \<or> \<not> is_yi (hd r)"
  shows "wrap_yi_sequences (p @ y @ r)
         = wrap_yi_sequences p @ yi_open @ y @ yi_close @ wrap_yi_sequences r"
  using wrap_append[OF assms(1)] wrap_run[OF assms(2,3,4)] by simp

lemma spec_text_char_yi: "is_yi c \<Longrightarrow> spec_text_char c = [c]"
  by (simp add: spec_text_char_def is_yi_def)

lemma spec_text_char_not_yi: "\<not> is_yi c \<Longrightarrow> \<forall>x\<in>set (spec_text_char c). \<not> is_yi x"
  by (auto simp: spec_text_char_def is_yi_def lit_def)

lemma spec_text_char_ne: "spec_text_char c \<noteq> []"
  by (simp add: spec_text_char_def lit_def)

lemma takeWhile_yi_escaped:
  "takeWhile is_yi (concat (map spec_text_char cs)) = takeWhile is_yi cs"
proof (induction cs)
  case Nil
  then show ?case by simp
next
  case (Cons c cs)
  show ?case
  proof (cases "is_yi c")
    case True
    then show ?thesis using Cons by (simp add: spec_text_char_yi)
  next
    case False
    obtain x xs where x: "spec_text_char c = x # xs"
      using spec_text_char_ne[of c] by (cases "spec_text_char c") auto
    then have "\<not> is_yi x" using spec_text_char_not_yi[OF False] by simp
    then show ?thesis using False x by simp
  qed
qed

lemma dropWhile_yi_escaped:
  "dropWhile is_yi (concat (map spec_text_char cs)) = concat (map spec_text_char (dropWhile is_yi cs))"
proof (induction cs)
  case Nil
  then show ?case by simp
next
  case (Cons c cs)
  show ?case
  proof (cases "is_yi c")
    case True
    then show ?thesis using Cons by (simp add: spec_text_char_yi)
  next
    case False
    obtain x xs where x: "spec_text_char c = x # xs"
      using spec_text_char_ne[of c] by (cases "spec_text_char c") auto
    then have "\<not> is_yi x" using spec_text_char_not_yi[OF False] by simp
    then show ?thesis using False x by simp
  qed
qed

lemma escaped_markup_plain:
  "\<forall>c\<in>set p. c \<noteq> 38 \<and> c \<noteq> 60 \<and> c \<noteq> 62 \<Longrightarrow> escaped_markup r \<Longrightarrow> escaped_markup (p @ r)"
  by (induction p) (auto intro: em_Plain)

lemma escaped_markup_char:
  assumes "escaped_markup r"
  shows "escaped_markup (spec_text_char c @ r)"
proof -
  consider "c = 160" | "c = 38" | "c = 60" | "c = 62" | "c \<noteq> 160 \<and> c \<noteq> 38 \<and> c \<noteq> 60 \<and> c \<noteq> 62"
    by blast
  then show ?thesis
  proof cases
    case 1
    then have "spec_text_char c @ r = 32 # r" by (simp add: spec_text_char_def lit_def)
    then show ?thesis using em_Plain[of 32 r] assms by simp
  next
    case 2
    then show ?thesis using em_Amp[OF assms] by (simp add: spec_text_char_def)
  next
    case 3
    then show ?thesis using em_Lt[OF assms] by (simp add: spec_text_char_def)
  next
    case 4
    then show ?thesis using em_Gt[OF assms] by (simp add: spec_text_char_def)
  next
    case 5
    then show ?thesis using em_Plain[of c r] assms by (simp add: spec_text_char_def)
  qed
qed

lemma escaped_markup_text:
  "escaped_markup (wrap_yi_sequences (concat (map spec_text_char t)))"
proof (induction t rule: length_induct)
  case (1 t)
  show ?case
  proof (cases t)
    case Nil
    then show ?thesis by (simp add: em_Nil)
  next
    case (Cons c cs)
    show ?thesis
    proof (cases "is_yi c")
      case False
      have "escaped_markup (wrap_yi_sequences (concat (map spec_text_char cs)))"
        using 1 Cons by simp
      then have "escaped_markup (spec_text_char c @ wrap_yi_sequences (concat (map spec_text_char cs)))"
        by (rule escaped_markup_char)
      then show ?thesis
        using Cons wrap_no_yi[OF spec_text_char_not_yi[OF False]] by simp
    next
      case True
      let ?run = "c # takeWhile is_yi cs"
      let ?rest = "dropWhile is_yi cs"
      have "length ?rest < length t"
        using Cons by (simp add: length_dropWhile_le less_Suc_eq_le)
      then have r: "escaped_markup (wrap_yi_sequences (concat (map spec_text_char ?rest)))"
        using 1 by blast
      have plain: "\<forall>x\<in>set ?run. x \<noteq> 38 \<and> x \<noteq> 60 \<and> x \<noteq> 62"
        using True by (auto simp: is_yi_def dest!: set_takeWhileD)
      have "escaped_markup (yi_open @ ?run @ yi_close
              @ wrap_yi_sequences (concat (map spec_text_char ?rest)))"
        unfolding yi_open_def yi_close_def
        by (intro em_Open escaped_markup_plain[OF plain] em_Close r)
      then show ?thesis
        using Cons True by (simp add: spec_text_char_yi takeWhile_yi_escaped dropWhile_yi_escaped)
    qed
  qed
qed

text \<open>
  Claim C1. The rendering of a text leaf is its text with every non-breaking space replaced by
  a space and every \<^verbatim>\<open><\<close>, \<^verbatim>\<open>&\<close> and \<^verbatim>\<open>>\<close> replaced by its entity, every other
  character (the quotes among them) kept, and then with the Yi runs wrapped: a text without a
  character of U+A000 to U+A48F is unchanged, and a run of such characters that no such
  character precedes or follows is enclosed, whole, between \<^verbatim>\<open><font face="NotoSansYi">\<close> and
  \<^verbatim>\<open></font>\<close>. Every \<^verbatim>\<open><\<close>, \<^verbatim>\<open>&\<close> and \<^verbatim>\<open>>\<close> of the rendering of a text leaf belongs
  to an entity or to that font tag. The text \<^verbatim>\<open>A & B\<close> inside a bold element renders to
  \<^verbatim>\<open><b>A &amp; B</b>\<close>.
\<close>

theorem text_leaf_escaped_then_yi_wrapped:
  "render_node (NavigableString t) = wrap_yi_sequences (concat (map spec_text_char t))
   \<and> ((\<forall>c\<in>set s. \<not> (40960 \<le> c \<and> c \<le> 42127)) \<longrightarrow> wrap_yi_sequences s = s)
   \<and> ((p = [] \<or> \<not> (40960 \<le> last p \<and> last p \<le> 42127))
        \<and> y \<noteq> [] \<and> (\<forall>c\<in>set y. 40960 \<le> c \<and> c \<le> 42127)
        \<and> (r = [] \<or> \<not> (40960 \<le> hd r \<and> hd r \<le> 42127))
        \<longrightarrow> wrap_yi_sequences (p @ y @ r)
            = wrap_yi_sequences p @ lit ''<font face=\"NotoSansYi\">'' @ y @ lit ''</font>''
              @ wrap_yi_sequences r)
   \<and> escaped_markup (render_node (NavigableString t))
   \<and> render_node (Tag (lit ''b'') no_attrs [NavigableString (lit ''A & B'')]) = lit ''<b>A &amp; B</b>''"
proof -
  have 1: "render_node (NavigableString t) = wrap_yi_sequences (concat (map spec_text_char t))"
    by (rule render_node_text)
  have 2: "(\<forall>c\<in>set s. \<not> (40960 \<le> c \<and> c \<le> 42127)) \<longrightarrow> wrap_yi_sequences s = s"
    using wrap_no_yi_id[of s, unfolded is_yi_def] by blast
  have 3: "(p = [] \<or> \<not> (40960 \<le> last p \<and> last p \<le> 42127))
        \<and> y \<noteq> [] \<and> (\<forall>c\<in>set y. 40960 \<le> c \<and> c \<le> 42127)
        \<and> (r = [] \<or> \<not> (40960 \<le> hd r \<and> hd r \<le> 42127))
        \<longrightarrow> wrap_yi_sequences (p @ y @ r)
            = wrap_yi_sequences p @ lit ''<font face=\"NotoSansYi\">'' @ y @ lit ''</font>''
              @ wrap_yi_sequences r"
    using wrap_maximal_run[of p y r, unfolded is_yi_def yi_open_def yi_close_def] by blast
  have 4: "escaped_markup (render_node (NavigableString t))"
    unfolding 1 by (rule escaped_markup_text)
  have 5: "render_node (Tag (lit ''b'') no_attrs [NavigableString (lit ''A & B'')]) = lit ''<b>A &amp; B</b>''"
    by (simp add: eval_defs)
  show ?thesis
    using 1 2 3 4 5 by blast
qed

theorem text_leaf_escaped_then_yi_wrapped_witness:
  "render_node (NavigableString ([97, 60] @ [40960, 40961] @ [160]))
   = lit ''a&lt;<font face=\"NotoSansYi\">'' @ [40960, 40961] @ lit ''</font> ''"
proof -
  let ?t = "[97, 60] @ [40960, 40961] @ [160::nat]"
  let ?p = "lit ''a&lt;''"
  let ?y = "[40960, 40961::nat]"
  let ?r = "lit '' ''"
  have e: "concat (map spec_text_char ?t) = ?p @ ?y @ ?r"
    by (simp add: spec_text_char_def lit_def)
  have hp: "?p = [] \<or> \<not> (40960 \<le> last ?p \<and> last ?p \<le> 42127)"
    by (simp add: lit_def)
  have hy: "?y \<noteq> [] \<and> (\<forall>c\<in>set ?y. 40960 \<le> c \<and> c \<le> 42127)"
    by simp
  have hr: "?r = [] \<or> \<not> (40960 \<le> hd ?r \<and> hd ?r \<le> 42127)"
    by (simp add: lit_def)
  have np: "\<forall>c\<in>set ?p. \<not> (40960 \<le> c \<and> c \<le> 42127)"
    by (simp add: lit_def)
  have nr: "\<forall>c\<in>set ?r. \<not> (40960 \<le> c \<and> c \<le> 42127)"
    by (simp add: lit_def)
  have 1: "render_node (NavigableString ?t) = wrap_yi_sequences (?p @ ?y @ ?r)"
    using text_leaf_escaped_then_yi_wrapped[where t = "?t", THEN conjunct1]
    unfolding e .
  have 2: "wrap_yi_sequences (?p @ ?y @ ?r)
           = wrap_yi_sequences ?p @ lit ''<font face=\"NotoSansYi\">'' @ ?y @ lit ''</font>''
             @ wrap_yi_sequences ?r"
    using text_leaf_escaped_then_yi_wrapped
      [where p = "?p" and y = "?y" and r = "?r", THEN conjunct2, THEN conjunct2, THEN conjunct1]
      hp hy hr
    by blast
  have 3: "wrap_yi_sequences ?p = ?p"
    using text_leaf_escaped_then_yi_wrapped[where s = "?p", THEN conjunct2, THEN conjunct1] np
    by blast
  have 4: "wrap_yi_sequences ?r = ?r"
    using text_leaf_escaped_then_yi_wrapped[where s = "?r", THEN conjunct2, THEN conjunct1] nr
    by blast
  have 5: "?p @ lit ''<font face=\"NotoSansYi\">'' @ ?y @ lit ''</font>'' @ ?r
           = lit ''a&lt;<font face=\"NotoSansYi\">'' @ [40960, 40961] @ lit ''</font> ''"
    by (simp add: lit_def)
  show ?thesis
    unfolding 1 2 3 4 5 by (rule refl)
qed

end
